theory Spec2Isabelle
  imports Main "HOL-Library.AList"
begin

section \<open>The Lark channel: splitter, inbound normalisation, outbound delivery\<close>

text \<open>
  This theory embeds the channel implemented in \<^verbatim>\<open>src/channels/lark.ts\<close> (the first
  of the two versions the file holds, the one that sends post messages): the pure
  function \<^verbatim>\<open>splitMarkdown\<close>, and the methods \<^verbatim>\<open>handleIncomingMessage\<close>,
  \<^verbatim>\<open>cleanupDedup\<close>, \<^verbatim>\<open>sendMessage\<close>, \<^verbatim>\<open>_sendDirect\<close>, \<^verbatim>\<open>flushOutgoingQueue\<close>
  and \<^verbatim>\<open>connect\<close> of the class \<^verbatim>\<open>LarkChannel\<close>. The definitions come first, the
  facts and the claims about them after.

  A JavaScript string is a sequence of UTF-16 code units and \<^verbatim>\<open>length\<close>, \<^verbatim>\<open>slice\<close>
  and \<^verbatim>\<open>lastIndexOf\<close> count code units. A HOL \<^typ>\<open>string\<close> stands for such a
  sequence, one \<^typ>\<open>char\<close> for one code unit; the functions below only compare units
  with each other and with a few ASCII characters.
\<close>

subsection \<open>Splitting long text\<close>

text \<open>
  \<^verbatim>\<open>lastIndexOf(searchString, position)\<close> for a position that is a non-negative
  integer: the largest index \<open>i\<close> with \<open>i \<le> position\<close> at which \<open>searchString\<close>
  occurs in the string, and \<open>-1\<close> when there is none. \<^verbatim>\<open>slice(0, i)\<close> is \<open>take i\<close>
  and \<^verbatim>\<open>slice(i)\<close> is \<open>drop i\<close>.

  The length limit \<^verbatim>\<open>maxLen\<close> of \<^verbatim>\<open>splitMarkdown\<close> is a natural number here: the
  only caller passes the constant 4000. The loop of \<^verbatim>\<open>splitMarkdown\<close> is not obviously
  terminating, so it is a partial function into \<open>option\<close>: \<open>None\<close> is a loop that
  never returns.
\<close>

definition NL :: char where "NL = CHR 0x0A"

definition lastIndexOf :: "string \<Rightarrow> string \<Rightarrow> nat \<Rightarrow> int" where
  "lastIndexOf s searchString position =
     (if length s < length searchString then - 1
      else case find (\<lambda>i. take (length searchString) (drop i s) = searchString)
                     (rev [0 ..< Suc (min position (length s - length searchString))]) of
             None \<Rightarrow> - 1
           | Some i \<Rightarrow> int i)"

partial_function (option) splitLoop :: "nat \<Rightarrow> string list \<Rightarrow> string \<Rightarrow> string list option" where
  "splitLoop maxLen chunks remaining =
     (if length remaining > 0 then
        (if length remaining \<le> maxLen then Some (chunks @ [remaining])
         else
           let splitIdx = lastIndexOf remaining [NL, NL] maxLen in
           if splitIdx > 0 then
             splitLoop maxLen (chunks @ [take (nat splitIdx) remaining]) (drop (nat splitIdx + 2) remaining)
           else
             let splitIdx = lastIndexOf remaining [NL] maxLen in
             if splitIdx > 0 then
               splitLoop maxLen (chunks @ [take (nat splitIdx) remaining]) (drop (nat splitIdx + 1) remaining)
             else
               splitLoop maxLen (chunks @ [take maxLen remaining]) (drop maxLen remaining))
      else Some chunks)"

declare splitLoop.simps [code]

definition splitMarkdown :: "string \<Rightarrow> nat \<Rightarrow> string list option" where
  "splitMarkdown text maxLen =
     (if length text \<le> maxLen then Some [text] else splitLoop maxLen [] text)"

text \<open>
  The loop once more, recording with every chunk how the loop left it: cut at a double
  line feed, at a single line feed, by length, or pushed whole as the final remainder.
  The separator of a cut is what the loop skips after the chunk. The chunks of the trace
  are the chunks of \<open>splitLoop\<close> (lemma \<open>splitLoop_trace\<close>).
\<close>

datatype cut = ParagraphCut | LineCut | HardCut | NoCut

fun separator :: "cut \<Rightarrow> string" where
  "separator ParagraphCut = [NL, NL]"
| "separator LineCut = [NL]"
| "separator HardCut = []"
| "separator NoCut = []"

partial_function (option) splitLoopTrace ::
    "nat \<Rightarrow> (string \<times> cut) list \<Rightarrow> string \<Rightarrow> (string \<times> cut) list option" where
  "splitLoopTrace maxLen chunks remaining =
     (if length remaining > 0 then
        (if length remaining \<le> maxLen then Some (chunks @ [(remaining, NoCut)])
         else
           let splitIdx = lastIndexOf remaining [NL, NL] maxLen in
           if splitIdx > 0 then
             splitLoopTrace maxLen (chunks @ [(take (nat splitIdx) remaining, ParagraphCut)])
               (drop (nat splitIdx + 2) remaining)
           else
             let splitIdx = lastIndexOf remaining [NL] maxLen in
             if splitIdx > 0 then
               splitLoopTrace maxLen (chunks @ [(take (nat splitIdx) remaining, LineCut)])
                 (drop (nat splitIdx + 1) remaining)
             else
               splitLoopTrace maxLen (chunks @ [(take maxLen remaining, HardCut)])
                 (drop maxLen remaining))
      else Some chunks)"

declare splitLoopTrace.simps [code]

definition splitMarkdownTrace :: "string \<Rightarrow> nat \<Rightarrow> (string \<times> cut) list option" where
  "splitMarkdownTrace text maxLen =
     (if length text \<le> maxLen then Some [(text, NoCut)] else splitLoopTrace maxLen [] text)"

definition rejoin :: "(string \<times> cut) list \<Rightarrow> string" where
  "rejoin tr = concat (map (\<lambda>(c, k). c @ separator k) tr)"

definition consumed :: "string \<times> cut \<Rightarrow> nat" where
  "consumed ck = length (fst ck) + length (separator (snd ck))"

text \<open>
  What every entry of a trace satisfies: a chunk cut at a line feed is not empty, a chunk
  cut by length is exactly \<open>maxLen\<close> long, and no chunk is longer than \<open>maxLen\<close>.
\<close>

fun cutOk :: "nat \<Rightarrow> string \<times> cut \<Rightarrow> bool" where
  "cutOk maxLen (c, ParagraphCut) = (0 < length c \<and> length c \<le> maxLen)"
| "cutOk maxLen (c, LineCut) = (0 < length c \<and> length c \<le> maxLen)"
| "cutOk maxLen (c, HardCut) = (length c = maxLen)"
| "cutOk maxLen (c, NoCut) = (length c \<le> maxLen)"


subsection \<open>Constants and configuration\<close>

definition MAX_TEXT_LENGTH :: nat where
  "MAX_TEXT_LENGTH = 4000"

definition DEDUP_TTL_MS :: int where
  "DEDUP_TTL_MS = 10 * 60 * 1000"

text \<open>
  \<^verbatim>\<open>ASSISTANT_NAME\<close> and \<^verbatim>\<open>TRIGGER_PATTERN\<close> are imported from \<^verbatim>\<open>config.ts\<close>, which is
  not part of the sources at hand, so the channel takes them as a parameter. The pattern
  is used through \<^verbatim>\<open>TRIGGER_PATTERN.test\<close> only; it is a predicate on strings.
  \<open>test_config\<close> is the configuration the test suite \<^verbatim>\<open>lark.test.ts\<close> installs: the
  name \<^verbatim>\<open>Jonesy\<close> and the pattern \<^verbatim>\<open>/^@Jonesy\b/i\<close>.
\<close>

record config =
  ASSISTANT_NAME :: string
  TRIGGER_PATTERN :: "string \<Rightarrow> bool"

definition isWordChar :: "char \<Rightarrow> bool" where
  "isWordChar c =
     (let n = (of_char c :: nat)
      in (48 \<le> n \<and> n \<le> 57) \<or> (65 \<le> n \<and> n \<le> 90) \<or> n = 95 \<or> (97 \<le> n \<and> n \<le> 122))"

definition asciiLower :: "char \<Rightarrow> char" where
  "asciiLower c =
     (let n = (of_char c :: nat) in if 65 \<le> n \<and> n \<le> 90 then char_of (n + 32) else c)"

definition triggerJonesy :: "string \<Rightarrow> bool" where
  "triggerJonesy s =
     (map asciiLower (take 7 s) = ''@jonesy'' \<and>
      (case drop 7 s of [] \<Rightarrow> True | c # r \<Rightarrow> \<not> isWordChar c))"

definition test_config :: config where
  "test_config = \<lparr> ASSISTANT_NAME = ''Jonesy'', TRIGGER_PATTERN = triggerJonesy \<rparr>"

subsection \<open>JavaScript values and string functions\<close>

text \<open>
  A value that is a string or \<^verbatim>\<open>undefined\<close> is a \<^typ>\<open>string option\<close>. It is truthy
  when it is a non-empty string; \<open>orElse v d\<close> is \<^verbatim>\<open>v || d\<close>.
\<close>

definition truthy :: "string option \<Rightarrow> bool" where
  "truthy v = (case v of None \<Rightarrow> False | Some s \<Rightarrow> s \<noteq> [])"

definition orElse :: "string option \<Rightarrow> string \<Rightarrow> string" where
  "orElse v d = (case v of None \<Rightarrow> d | Some s \<Rightarrow> if s = [] then d else s)"

text \<open>
  \<^verbatim>\<open>String.prototype.replace\<close> with a string pattern replaces the first occurrence of
  the pattern only, and expands in the replacement text the patterns \<^verbatim>\<open>$$\<close>,
  \<^verbatim>\<open>$&\<close>, the dollar sign followed by a backtick and the dollar sign followed by an
  apostrophe (there are no capture groups, so \<^verbatim>\<open>$1\<close> and \<^verbatim>\<open>$<\<close> stay as they
  are).
\<close>

fun indexOf :: "string \<Rightarrow> string \<Rightarrow> nat option" where
  "indexOf [] searchString = (if searchString = [] then Some 0 else None)"
| "indexOf (c # r) searchString =
     (if take (length searchString) (c # r) = searchString then Some 0
      else map_option Suc (indexOf r searchString))"

fun getSubstitution :: "string \<Rightarrow> string \<Rightarrow> string \<Rightarrow> string \<Rightarrow> string" where
  "getSubstitution matched preceding following [] = []"
| "getSubstitution matched preceding following [c] = [c]"
| "getSubstitution matched preceding following (c # d # r) =
     (if c = CHR ''$'' \<and> d = CHR ''$'' then CHR ''$'' # getSubstitution matched preceding following r
      else if c = CHR ''$'' \<and> d = CHR ''&'' then matched @ getSubstitution matched preceding following r
      else if c = CHR ''$'' \<and> d = CHR 0x60 then preceding @ getSubstitution matched preceding following r
      else if c = CHR ''$'' \<and> d = CHR 0x27 then following @ getSubstitution matched preceding following r
      else c # getSubstitution matched preceding following (d # r))"

definition stringReplace :: "string \<Rightarrow> string \<Rightarrow> string \<Rightarrow> string" where
  "stringReplace s searchValue replaceValue =
     (case indexOf s searchValue of
        None \<Rightarrow> s
      | Some pos \<Rightarrow>
          take pos s
          @ getSubstitution searchValue (take pos s) (drop (pos + length searchValue) s) replaceValue
          @ drop (pos + length searchValue) s)"

text \<open>
  \<^verbatim>\<open>parseInt(v, 10)\<close>: leading white space is skipped, a sign is read, and the longest
  run of decimal digits is the value; \<open>None\<close> is \<^verbatim>\<open>NaN\<close> (no digit, or \<^verbatim>\<open>undefined\<close>).
  Of the white space of JavaScript, the code units up to 255 are covered. The result of
  \<^verbatim>\<open>parseInt\<close> is a double; it is exact up to \<open>2^53\<close>, which covers every time value a
  \<^verbatim>\<open>Date\<close> accepts (at most 8.64e15 in absolute value), and rounding keeps a larger
  value outside that range.
\<close>

definition isWhiteSpace :: "char \<Rightarrow> bool" where
  "isWhiteSpace c = ((of_char c :: nat) \<in> {9, 10, 11, 12, 13, 32, 160})"

definition isDigit :: "char \<Rightarrow> bool" where
  "isDigit c = (48 \<le> (of_char c :: nat) \<and> (of_char c :: nat) \<le> 57)"

definition digitsValue :: "string \<Rightarrow> int" where
  "digitsValue ds = foldl (\<lambda>a c. 10 * a + (of_char c - 48)) 0 ds"

definition parseInt10 :: "string option \<Rightarrow> int option" where
  "parseInt10 input =
     (case input of
        None \<Rightarrow> None
      | Some str \<Rightarrow>
          let s = dropWhile isWhiteSpace str;
              negative = (s \<noteq> [] \<and> hd s = CHR ''-'');
              unsigned = (if s \<noteq> [] \<and> (hd s = CHR ''-'' \<or> hd s = CHR ''+'') then tl s else s);
              z = takeWhile isDigit unsigned
          in if z = [] then None
             else Some (if negative then - digitsValue z else digitsValue z))"

text \<open>
  \<^verbatim>\<open>parseInt(message.create_time, 10) || Date.now()\<close>, in milliseconds, and the range
  of time values for which \<^verbatim>\<open>new Date(ms).toISOString()\<close> returns; outside it the call
  throws a \<^verbatim>\<open>RangeError\<close>. A timestamp is kept as its number of milliseconds, which
  stands for its ISO-8601 rendering.
\<close>

definition timestampMs :: "int \<Rightarrow> string option \<Rightarrow> int" where
  "timestampMs now createTime =
     (case parseInt10 createTime of None \<Rightarrow> now | Some n \<Rightarrow> if n = 0 then now else n)"

definition validTime :: "int \<Rightarrow> bool" where
  "validTime ms = (\<bar>ms\<bar> \<le> 8640000000000000)"

subsection \<open>Inbound events\<close>

text \<open>
  The event \<^verbatim>\<open>data\<close> handed to \<^verbatim>\<open>handleIncomingMessage\<close>. The field \<open>content\<close> is the
  outcome of \<^verbatim>\<open>JSON.parse(message.content).text\<close>: the parse (or the property read)
  throws, there is no \<^verbatim>\<open>text\<close>, or the text is a string (the type the source
  declares for \<^verbatim>\<open>textContent\<close>). \<open>mention_open_id\<close> is \<^verbatim>\<open>mention.id?.open_id\<close> and
  \<open>sender_open_id\<close> is \<^verbatim>\<open>data.sender?.sender_id?.open_id\<close>. The fields
  \<open>message_type\<close> and \<open>chat_type\<close> are only compared with a literal and \<open>key\<close> is
  only tested for truth before it is used, so an absent value of these is a string
  different from the literal, and the empty key.
\<close>

datatype json_text = Unparseable | NoText | TextOf string

record lark_mention =
  key :: string
  mention_open_id :: "string option"

record lark_message =
  message_id :: "string option"
  message_type :: string
  content :: json_text
  chat_id :: "string option"
  chat_type :: string
  create_time :: "string option"
  mentions :: "lark_mention list option"

record lark_event =
  message :: "lark_message option"
  sender_open_id :: "string option"

record RegisteredGroup =
  group_name :: string
  folder :: string
  trigger :: string
  added_at :: string
  requiresTrigger :: "bool option"

record NewMessage =
  msg_id :: string
  chat_jid :: string
  sender :: string
  sender_name :: string
  msg_content :: string
  timestamp :: int
  is_from_me :: bool
  is_bot_message :: bool

text \<open>
  What a handler does to its collaborators, in order: a call of \<^verbatim>\<open>opts.onChatMetadata\<close>
  (jid, timestamp, name, channel, isGroup), a call of the provider
  \<^verbatim>\<open>opts.registeredGroups\<close>, a call of \<^verbatim>\<open>opts.onMessage\<close>.
\<close>

datatype callback =
    OnChatMetadata string int "string option" string bool
  | RegisteredGroups
  | OnMessage string NewMessage

fun isOnMessage :: "callback \<Rightarrow> bool" where
  "isOnMessage (OnMessage jid msg) = True"
| "isOnMessage c = False"

fun isOnChatMetadata :: "callback \<Rightarrow> bool" where
  "isOnChatMetadata (OnChatMetadata jid ts nm ch g) = True"
| "isOnChatMetadata c = False"

datatype error = RangeError | PlatformError | TransportError

subsection \<open>Channel state and the dedup store\<close>

text \<open>
  The mutable fields of \<^verbatim>\<open>LarkChannel\<close>. \<^verbatim>\<open>seenMessages\<close> is a \<^verbatim>\<open>Map\<close> from message
  id to first-seen time, kept in insertion order as an association list:
  \<^verbatim>\<open>Map.has\<close> is \<open>seenHas\<close>, \<^verbatim>\<open>Map.set\<close> is \<open>AList.update\<close>.
\<close>

record channel =
  botOpenId :: "string option"
  connected :: bool
  outgoingQueue :: "(string \<times> string) list"
  flushing :: bool
  seenMessages :: "(string \<times> int) list"

definition newChannel :: channel where
  "newChannel = \<lparr> botOpenId = None, connected = False, outgoingQueue = [], flushing = False,
                  seenMessages = [] \<rparr>"

definition seenHas :: "(string \<times> int) list \<Rightarrow> string \<Rightarrow> bool" where
  "seenHas seen k = (map_of seen k \<noteq> None)"

definition cleanupDedup :: "int \<Rightarrow> channel \<Rightarrow> channel" where
  "cleanupDedup now s =
     s\<lparr> seenMessages := filter (\<lambda>(k, ts). \<not> (now - ts > DEDUP_TTL_MS)) (seenMessages s) \<rparr>"

text \<open>
  The first two statements of the handler after the message is read: an event whose
  message id is truthy and recorded is a duplicate; otherwise a truthy id is recorded
  with the current time.
\<close>

definition isDuplicate :: "string option \<Rightarrow> channel \<Rightarrow> bool" where
  "isDuplicate messageId s = (truthy messageId \<and> seenHas (seenMessages s) (orElse messageId []))"

definition recordMessage :: "int \<Rightarrow> string option \<Rightarrow> channel \<Rightarrow> channel" where
  "recordMessage now messageId s =
     (if truthy messageId
      then s\<lparr> seenMessages := AList.update (orElse messageId []) now (seenMessages s) \<rparr>
      else s)"

subsection \<open>Mention normalisation and the inbound handler\<close>

fun replaceMentions :: "string \<Rightarrow> string \<Rightarrow> lark_mention list \<Rightarrow> string \<Rightarrow> string" where
  "replaceMentions assistant botId [] txt = txt"
| "replaceMentions assistant botId (m # ms) txt =
     replaceMentions assistant botId ms
       (if mention_open_id m = Some botId \<and> key m \<noteq> []
        then stringReplace txt (key m) (CHR ''@'' # assistant)
        else txt)"

definition normalizeContent ::
    "config \<Rightarrow> string option \<Rightarrow> bool \<Rightarrow> lark_mention list option \<Rightarrow> string \<Rightarrow> string" where
  "normalizeContent cfg botId isBotMessage ms textContent =
     (if \<not> isBotMessage then
        let replaced =
              (case ms of
                 None \<Rightarrow> textContent
               | Some l \<Rightarrow>
                   (case botId of
                      None \<Rightarrow> textContent
                    | Some b \<Rightarrow>
                        if b \<noteq> [] then replaceMentions (ASSISTANT_NAME cfg) b l textContent
                        else textContent))
        in if replaced \<noteq> textContent \<and> \<not> TRIGGER_PATTERN cfg replaced
           then CHR ''@'' # ASSISTANT_NAME cfg @ '' '' @ replaced
           else replaced
      else textContent)"

definition buildMessage ::
    "config \<Rightarrow> channel \<Rightarrow> lark_event \<Rightarrow> lark_message \<Rightarrow> string \<Rightarrow> int \<Rightarrow> string \<Rightarrow> NewMessage" where
  "buildMessage cfg s data m jid ms textContent =
     (let senderOpenId = sender_open_id data;
          isBotMessage = (truthy (botOpenId s) \<and> senderOpenId = botOpenId s);
          senderName = (if isBotMessage then ASSISTANT_NAME cfg else orElse senderOpenId ''unknown'');
          normalized = normalizeContent cfg (botOpenId s) isBotMessage (mentions m) textContent
      in \<lparr> msg_id = orElse (message_id m) (orElse (create_time m) []),
           chat_jid = jid,
           sender = orElse senderOpenId [],
           sender_name = senderName,
           msg_content = normalized,
           timestamp = ms,
           is_from_me = isBotMessage,
           is_bot_message = isBotMessage \<rparr>)"

text \<open>
  \<^verbatim>\<open>handleIncomingMessage(data)\<close>. \<open>groups\<close> is the mapping the provider
  \<^verbatim>\<open>opts.registeredGroups()\<close> returns when it is called during this handling and
  \<open>now\<close> is the reading of \<^verbatim>\<open>Date.now()\<close> (both reads of the clock in one handling
  return it). The result is the outcome of the promise
  (resolved, or rejected with the error thrown), the callbacks made in order, and the
  state of the channel afterwards. The callbacks, the provider and the logger are taken
  to return normally. Every method runs to its end before the next one starts: the
  interleaving of asynchronous calls is not part of the model.
\<close>

definition handleIncomingMessage ::
    "config \<Rightarrow> (string \<rightharpoonup> RegisteredGroup) \<Rightarrow> int \<Rightarrow> lark_event \<Rightarrow> channel
       \<Rightarrow> (error + unit) \<times> callback list \<times> channel" where
  "handleIncomingMessage cfg groups now data s =
     (case message data of
        None \<Rightarrow> (Inr (), [], s)
      | Some m \<Rightarrow>
          if isDuplicate (message_id m) s then (Inr (), [], s)
          else
            let s1 = recordMessage now (message_id m) s
            in if message_type m \<noteq> ''text'' then (Inr (), [], s1)
               else
                 (case content m of
                    Unparseable \<Rightarrow> (Inr (), [], s1)
                  | NoText \<Rightarrow> (Inr (), [], s1)
                  | TextOf textContent \<Rightarrow>
                      if textContent = [] then (Inr (), [], s1)
                      else if \<not> truthy (chat_id m) then (Inr (), [], s1)
                      else
                        let jid = ''lark:'' @ orElse (chat_id m) [];
                            isGroup = (chat_type m \<noteq> ''p2p'');
                            ms = timestampMs now (create_time m)
                        in if \<not> validTime ms then (Inl RangeError, [], s1)
                           else
                             let metadata = OnChatMetadata jid ms None ''lark'' isGroup
                             in (case groups jid of
                                   None \<Rightarrow> (Inr (), [metadata, RegisteredGroups], s1)
                                 | Some g \<Rightarrow>
                                     (Inr (),
                                      [metadata, RegisteredGroups,
                                       OnMessage jid (buildMessage cfg s data m jid ms textContent)],
                                      s1))))"

text \<open>
  A run of the channel's inbound side: events handled and periodic sweeps, each at its
  own time; the callbacks of the whole run are collected in order.
\<close>

datatype op = Incoming int "string \<rightharpoonup> RegisteredGroup" lark_event | Sweep int

fun runOps :: "config \<Rightarrow> op list \<Rightarrow> channel \<Rightarrow> callback list \<times> channel" where
  "runOps cfg [] s = ([], s)"
| "runOps cfg (Incoming now groups data # ops) s =
     (case handleIncomingMessage cfg groups now data s of
        (r, emitted, s1) \<Rightarrow> (case runOps cfg ops s1 of (later, s2) \<Rightarrow> (emitted @ later, s2)))"
| "runOps cfg (Sweep now # ops) s = runOps cfg ops (cleanupDedup now s)"

fun opTime :: "op \<Rightarrow> int" where
  "opTime (Incoming now groups data) = now"
| "opTime (Sweep now) = now"

subsection \<open>Outbound delivery\<close>

text \<open>
  A call of a send primitive of the platform client: \<^verbatim>\<open>im.v1.message.reply\<close> (message
  id, payload, \<^verbatim>\<open>msg_type\<close>) or \<^verbatim>\<open>im.v1.message.create\<close> (receive id, payload,
  \<^verbatim>\<open>msg_type\<close>). The payload is kept as the text it is made from: a post payload is
  \<^verbatim>\<open>JSON.stringify(markdownToPostContent(chunkText))\<close>, a text payload is
  \<^verbatim>\<open>JSON.stringify({text})\<close>; both are total functions of that text.

  The platform is a deterministic environment: given the calls made so far it accepts
  the next call or rejects it. The calls made are threaded through as a log.
\<close>

datatype msg_type = PostMsg | TextMsg

datatype api_call =
    MessageReply string string msg_type
  | MessageCreate string string msg_type

fun callText :: "api_call \<Rightarrow> string" where
  "callText (MessageReply mid txt ty) = txt"
| "callText (MessageCreate rid txt ty) = txt"

type_synonym platform = "api_call list \<Rightarrow> api_call \<Rightarrow> bool"

definition invoke :: "platform \<Rightarrow> api_call list \<Rightarrow> api_call \<Rightarrow> (error + unit) \<times> api_call list" where
  "invoke pf calls c = (if pf calls c then Inr () else Inl PlatformError, calls @ [c])"

definition acceptAll :: platform where
  "acceptAll calls c = True"

definition rejectFirst :: "nat \<Rightarrow> platform" where
  "rejectFirst n calls c = (n \<le> length calls)"

record mention_user =
  user_id :: string
  user_name :: string

record send_opts =
  replyToMessageId :: "string option"
  mentionUser :: "mention_user option"

definition noOpts :: send_opts where
  "noOpts = \<lparr> replyToMessageId = None, mentionUser = None \<rparr>"

definition mentionMarkup :: "mention_user \<Rightarrow> string" where
  "mentionMarkup u =
     ''<at user_id='' @ [CHR 0x22] @ user_id u @ [CHR 0x22] @ ''>'' @ user_name u @ ''</at> ''"

definition chatIdOf :: "string \<Rightarrow> string" where
  "chatIdOf jid = (if take 5 jid = ''lark:'' then drop 5 jid else jid)"

text \<open>
  The loop of \<^verbatim>\<open>_sendDirect\<close> over the chunks, \<open>i\<close> the index of the next chunk. The
  first rejected call ends the loop with its error.
\<close>

fun sendChunks ::
    "platform \<Rightarrow> string \<Rightarrow> string option \<Rightarrow> mention_user option \<Rightarrow> nat \<Rightarrow> string list
       \<Rightarrow> api_call list \<Rightarrow> (error + unit) \<times> api_call list" where
  "sendChunks pf chatId replyTo mu i [] calls = (Inr (), calls)"
| "sendChunks pf chatId replyTo mu i (chunk # chunks) calls =
     (let chunkText = (case mu of
                         Some u \<Rightarrow> if i = 0 then mentionMarkup u @ chunk else chunk
                       | None \<Rightarrow> chunk);
          call = (if i = 0 \<and> truthy replyTo
                  then MessageReply (orElse replyTo []) chunkText PostMsg
                  else MessageCreate chatId chunkText PostMsg)
      in case invoke pf calls call of
           (Inl e, calls1) \<Rightarrow> (Inl e, calls1)
         | (Inr u, calls1) \<Rightarrow> sendChunks pf chatId replyTo mu (Suc i) chunks calls1)"

text \<open>
  \<^verbatim>\<open>_sendDirect\<close>. The result is \<open>None\<close> when the splitter does not return.
\<close>

definition sendDirect ::
    "platform \<Rightarrow> string \<Rightarrow> string \<Rightarrow> string option \<Rightarrow> mention_user option \<Rightarrow> api_call list
       \<Rightarrow> ((error + unit) \<times> api_call list) option" where
  "sendDirect pf jid txt replyTo mu calls =
     (case splitMarkdown txt MAX_TEXT_LENGTH of
        None \<Rightarrow> None
      | Some chunks \<Rightarrow> Some (sendChunks pf (chatIdOf jid) replyTo mu 0 chunks calls))"

text \<open>
  \<^verbatim>\<open>sendMessage\<close>; \<open>fallbackText\<close> is the text of the plain-text retry.
\<close>

definition fallbackText :: "send_opts \<Rightarrow> string \<Rightarrow> string" where
  "fallbackText opts txt =
     (case mentionUser opts of Some u \<Rightarrow> mentionMarkup u @ txt | None \<Rightarrow> txt)"

definition sendMessage ::
    "platform \<Rightarrow> string \<Rightarrow> string \<Rightarrow> send_opts \<Rightarrow> channel \<Rightarrow> api_call list
       \<Rightarrow> ((error + unit) \<times> channel \<times> api_call list) option" where
  "sendMessage pf jid txt opts s calls =
     (if \<not> connected s
      then Some (Inr (), s\<lparr> outgoingQueue := outgoingQueue s @ [(jid, txt)] \<rparr>, calls)
      else
        (case sendDirect pf jid txt (replyToMessageId opts) (mentionUser opts) calls of
           None \<Rightarrow> None
         | Some (Inr u, calls1) \<Rightarrow> Some (Inr (), s, calls1)
         | Some (Inl err, calls1) \<Rightarrow>
             let call = (if truthy (replyToMessageId opts)
                         then MessageReply (orElse (replyToMessageId opts) [])
                                (fallbackText opts txt) TextMsg
                         else MessageCreate (chatIdOf jid) (fallbackText opts txt) TextMsg)
             in (case invoke pf calls1 call of
                   (Inr u, calls2) \<Rightarrow> Some (Inr (), s, calls2)
                 | (Inl fallbackErr, calls2) \<Rightarrow>
                     Some (Inr (), s\<lparr> outgoingQueue := outgoingQueue s @ [(jid, txt)] \<rparr>,
                           calls2))))"

text \<open>
  The loop of \<^verbatim>\<open>flushOutgoingQueue\<close>: the head of the queue is removed, then sent through
  \<^verbatim>\<open>_sendDirect\<close> without options; an error leaves the loop with the rest of the queue.
  \<^verbatim>\<open>flushOutgoingQueue\<close> sets \<^verbatim>\<open>flushing\<close> for the time of the loop and clears it in
  its \<^verbatim>\<open>finally\<close> block.
\<close>

fun flushLoop ::
    "platform \<Rightarrow> (string \<times> string) list \<Rightarrow> api_call list
       \<Rightarrow> ((error + unit) \<times> (string \<times> string) list \<times> api_call list) option" where
  "flushLoop pf [] calls = Some (Inr (), [], calls)"
| "flushLoop pf ((jid, txt) # queue) calls =
     (case sendDirect pf jid txt None None calls of
        None \<Rightarrow> None
      | Some (Inl e, calls1) \<Rightarrow> Some (Inl e, queue, calls1)
      | Some (Inr u, calls1) \<Rightarrow> flushLoop pf queue calls1)"

definition flushOutgoingQueue ::
    "platform \<Rightarrow> channel \<Rightarrow> api_call list
       \<Rightarrow> ((error + unit) \<times> channel \<times> api_call list) option" where
  "flushOutgoingQueue pf s calls =
     (if flushing s \<or> outgoingQueue s = [] then Some (Inr (), s, calls)
      else
        (case flushLoop pf (outgoingQueue s) calls of
           None \<Rightarrow> None
         | Some (r, queue, calls1) \<Rightarrow>
             Some (r, s\<lparr> outgoingQueue := queue, flushing := False \<rparr>, calls1)))"

text \<open>
  \<^verbatim>\<open>connect()\<close>, as far as the channel state and the send primitives go: \<open>listening\<close>
  says whether the webhook server came up (the promise is rejected otherwise),
  \<open>botInfo\<close> is the \<^verbatim>\<open>open_id\<close> read from the bot-info request (\<open>None\<close> when the
  request failed, which is only logged). Then the channel is connected and the queue is
  flushed. The call of \<^verbatim>\<open>syncChatMetadata\<close> that follows the flush makes no send call
  and does not touch the state; it is left out.
\<close>

definition connect ::
    "platform \<Rightarrow> bool \<Rightarrow> string option option \<Rightarrow> channel \<Rightarrow> api_call list
       \<Rightarrow> ((error + unit) \<times> channel \<times> api_call list) option" where
  "connect pf listening botInfo s calls =
     (if \<not> listening then Some (Inl TransportError, s, calls)
      else
        let s1 = (case botInfo of None \<Rightarrow> s | Some openId \<Rightarrow> s\<lparr> botOpenId := openId \<rparr>)
        in flushOutgoingQueue pf (s1\<lparr> connected := True \<rparr>) calls)"

text \<open>
  The calls \<^verbatim>\<open>_sendDirect\<close> makes for a list of chunks when none is rejected, and the
  calls one queued item stands for.
\<close>

fun directCalls ::
    "string \<Rightarrow> string option \<Rightarrow> mention_user option \<Rightarrow> nat \<Rightarrow> string list \<Rightarrow> api_call list" where
  "directCalls chatId replyTo mu i [] = []"
| "directCalls chatId replyTo mu i (chunk # chunks) =
     (let chunkText = (case mu of
                         Some u \<Rightarrow> if i = 0 then mentionMarkup u @ chunk else chunk
                       | None \<Rightarrow> chunk)
      in (if i = 0 \<and> truthy replyTo
          then MessageReply (orElse replyTo []) chunkText PostMsg
          else MessageCreate chatId chunkText PostMsg))
     # directCalls chatId replyTo mu (Suc i) chunks"

definition queuedCalls :: "string \<times> string \<Rightarrow> api_call list" where
  "queuedCalls item =
     (case splitMarkdown (snd item) MAX_TEXT_LENGTH of
        None \<Rightarrow> []
      | Some chunks \<Rightarrow> directCalls (chatIdOf (fst item)) None None 0 chunks)"

subsection \<open>Fixtures of the test suite\<close>

text \<open>
  The values \<^verbatim>\<open>lark.test.ts\<close> works with: the registered group of \<^verbatim>\<open>createTestOpts\<close>,
  a channel after \<^verbatim>\<open>connect()\<close> (the mocked bot-info request answers
  \<^verbatim>\<open>ou_BOT_123\<close>), the event of \<^verbatim>\<open>createMessageData\<close>, and runs built from them.
\<close>

definition test_groups :: "string \<rightharpoonup> RegisteredGroup" where
  "test_groups =
     [''lark:oc_test123'' \<mapsto>
        \<lparr> group_name = ''Test Group'', folder = ''test-group'', trigger = ''@Jonesy'',
          added_at = ''2024-01-01T00:00:00.000Z'', requiresTrigger = None \<rparr>]"

definition test_channel :: channel where
  "test_channel = newChannel\<lparr> botOpenId := Some ''ou_BOT_123'', connected := True \<rparr>"

definition test_message :: lark_message where
  "test_message =
     \<lparr> message_id = Some ''om_test_msg_001'', message_type = ''text'',
       content = TextOf ''Hello everyone'', chat_id = Some ''oc_test123'',
       chat_type = ''group'', create_time = Some ''1704067200000'', mentions = None \<rparr>"

definition test_event :: "lark_message \<Rightarrow> lark_event" where
  "test_event m = \<lparr> message = Some m, sender_open_id = Some ''ou_USER_456'' \<rparr>"

definition dup_event :: lark_event where
  "dup_event = test_event (test_message\<lparr> message_id := Some ''om_dup_001'' \<rparr>)"

definition dup_ops :: "op list" where
  "dup_ops =
     [Sweep 1704067501000,
      Incoming 1704067600000 test_groups (test_event test_message),
      Sweep 1704067801000]"

definition registration_ops :: "op list" where
  "registration_ops =
     [Incoming 1704067201000 Map.empty (test_event test_message),
      Incoming 1704067202000 test_groups
        (test_event (test_message\<lparr> message_id := Some ''om_test_msg_002'' \<rparr>))]"

definition overlap_event :: lark_event where
  "overlap_event =
     test_event (test_message\<lparr>
       content := TextOf ''@_user_10 hi @_user_1'',
       mentions := Some [\<lparr> key = ''@_user_1'', mention_open_id = Some ''ou_BOT_123'' \<rparr>,
                         \<lparr> key = ''@_user_10'', mention_open_id = Some ''ou_OTHER_USER'' \<rparr>] \<rparr>)"





definition queued_channel :: channel where
  "queued_channel =
     newChannel\<lparr> outgoingQueue := [(''lark:oc_test123'', ''First queued''),
                                    (''lark:oc_test123'', ''Second queued'')] \<rparr>"


subsection \<open>Facts about the splitter\<close>

lemma find_SomeD: "find P xs = Some x \<Longrightarrow> P x \<and> x \<in> set xs"
  by (induction xs) (auto split: if_splits)

lemma lastIndexOf_cases:
  "lastIndexOf s pat pos = - 1 \<or>
   (\<exists>i. lastIndexOf s pat pos = int i \<and> i \<le> pos \<and> i + length pat \<le> length s \<and>
        take (length pat) (drop i s) = pat)"
proof (cases "length s < length pat")
  case True
  then show ?thesis by (simp add: lastIndexOf_def)
next
  case False
  let ?k = "min pos (length s - length pat)"
  let ?P = "\<lambda>i. take (length pat) (drop i s) = pat"
  show ?thesis
  proof (cases "find ?P (rev [0 ..< Suc ?k])")
    case None
    with False show ?thesis by (simp add: lastIndexOf_def)
  next
    case (Some i)
    from find_SomeD[OF Some] have Pi: "?P i" and mem: "i \<in> set (rev [0 ..< Suc ?k])"
      by blast+
    from mem have "i \<le> ?k" by (auto simp del: upt_Suc)
    then have "i \<le> pos" "i + length pat \<le> length s" using False by auto
    moreover have "lastIndexOf s pat pos = int i" using False Some by (simp add: lastIndexOf_def)
    ultimately show ?thesis using Pi by blast
  qed
qed

lemma lastIndexOf_positive:
  assumes "0 < lastIndexOf s pat pos"
  shows "0 < nat (lastIndexOf s pat pos)"
    and "nat (lastIndexOf s pat pos) \<le> pos"
    and "take (nat (lastIndexOf s pat pos)) s @ pat @ drop (nat (lastIndexOf s pat pos) + length pat) s = s"
proof -
  from lastIndexOf_cases[of s pat pos] assms obtain i where
    i: "lastIndexOf s pat pos = int i" "i \<le> pos" "i + length pat \<le> length s"
       "take (length pat) (drop i s) = pat"
    by auto
  show "0 < nat (lastIndexOf s pat pos)" using assms by simp
  show "nat (lastIndexOf s pat pos) \<le> pos" using i by simp
  have "take i s @ take (length pat) (drop i s) @ drop (length pat) (drop i s) = s"
    by (simp only: append_take_drop_id)
  then show "take (nat (lastIndexOf s pat pos)) s @ pat @ drop (nat (lastIndexOf s pat pos) + length pat) s = s"
    using i by (simp add: add.commute)
qed

lemma lastIndexOf_absent:
  assumes "NL \<notin> set s" and "pat = [NL] \<or> pat = [NL, NL]"
  shows "lastIndexOf s pat pos = - 1"
proof -
  { fix i assume "take (length pat) (drop i s) = pat"
    then have "set pat \<subseteq> set s"
      by (metis set_drop_subset set_take_subset subset_trans)
    with assms have False by auto }
  with lastIndexOf_cases[of s pat pos] show ?thesis by blast
qed

lemma lastIndexOf_zero_pos: "lastIndexOf s pat 0 \<le> 0"
  using lastIndexOf_cases[of s pat 0] by auto


lemma splitLoop_empty: "splitLoop maxLen cs [] = Some cs"
  by (subst splitLoop.simps) simp

lemma splitLoop_fits:
  "remaining \<noteq> [] \<Longrightarrow> length remaining \<le> maxLen \<Longrightarrow>
   splitLoop maxLen cs remaining = Some (cs @ [remaining])"
  by (subst splitLoop.simps) simp

lemma splitLoop_paragraph:
  "maxLen < length remaining \<Longrightarrow> 0 < lastIndexOf remaining [NL, NL] maxLen \<Longrightarrow>
   splitLoop maxLen cs remaining =
   splitLoop maxLen (cs @ [take (nat (lastIndexOf remaining [NL, NL] maxLen)) remaining])
     (drop (nat (lastIndexOf remaining [NL, NL] maxLen) + 2) remaining)"
  by (subst splitLoop.simps) (auto simp add: Let_def)

lemma splitLoop_line:
  "maxLen < length remaining \<Longrightarrow> \<not> 0 < lastIndexOf remaining [NL, NL] maxLen \<Longrightarrow>
   0 < lastIndexOf remaining [NL] maxLen \<Longrightarrow>
   splitLoop maxLen cs remaining =
   splitLoop maxLen (cs @ [take (nat (lastIndexOf remaining [NL] maxLen)) remaining])
     (drop (nat (lastIndexOf remaining [NL] maxLen) + 1) remaining)"
  by (subst splitLoop.simps) (auto simp add: Let_def)

lemma splitLoop_hard:
  "maxLen < length remaining \<Longrightarrow> \<not> 0 < lastIndexOf remaining [NL, NL] maxLen \<Longrightarrow>
   \<not> 0 < lastIndexOf remaining [NL] maxLen \<Longrightarrow>
   splitLoop maxLen cs remaining =
   splitLoop maxLen (cs @ [take maxLen remaining]) (drop maxLen remaining)"
  by (subst splitLoop.simps) (auto simp add: Let_def)

lemma splitLoopTrace_empty: "splitLoopTrace maxLen acc [] = Some acc"
  by (subst splitLoopTrace.simps) simp

lemma splitLoopTrace_fits:
  "remaining \<noteq> [] \<Longrightarrow> length remaining \<le> maxLen \<Longrightarrow>
   splitLoopTrace maxLen acc remaining = Some (acc @ [(remaining, NoCut)])"
  by (subst splitLoopTrace.simps) simp

lemma splitLoopTrace_paragraph:
  "maxLen < length remaining \<Longrightarrow> 0 < lastIndexOf remaining [NL, NL] maxLen \<Longrightarrow>
   splitLoopTrace maxLen acc remaining =
   splitLoopTrace maxLen
     (acc @ [(take (nat (lastIndexOf remaining [NL, NL] maxLen)) remaining, ParagraphCut)])
     (drop (nat (lastIndexOf remaining [NL, NL] maxLen) + 2) remaining)"
  by (subst splitLoopTrace.simps) (auto simp add: Let_def)

lemma splitLoopTrace_line:
  "maxLen < length remaining \<Longrightarrow> \<not> 0 < lastIndexOf remaining [NL, NL] maxLen \<Longrightarrow>
   0 < lastIndexOf remaining [NL] maxLen \<Longrightarrow>
   splitLoopTrace maxLen acc remaining =
   splitLoopTrace maxLen
     (acc @ [(take (nat (lastIndexOf remaining [NL] maxLen)) remaining, LineCut)])
     (drop (nat (lastIndexOf remaining [NL] maxLen) + 1) remaining)"
  by (subst splitLoopTrace.simps) (auto simp add: Let_def)

lemma splitLoopTrace_hard:
  "maxLen < length remaining \<Longrightarrow> \<not> 0 < lastIndexOf remaining [NL, NL] maxLen \<Longrightarrow>
   \<not> 0 < lastIndexOf remaining [NL] maxLen \<Longrightarrow>
   splitLoopTrace maxLen acc remaining =
   splitLoopTrace maxLen (acc @ [(take maxLen remaining, HardCut)]) (drop maxLen remaining)"
  by (subst splitLoopTrace.simps) (auto simp add: Let_def)

lemma rejoin_Cons: "rejoin ((c, k) # tr) = c @ separator k @ rejoin tr"
  by (simp add: rejoin_def)

lemma rejoin_Nil: "rejoin [] = []"
  by (simp add: rejoin_def)

lemma splitLoop_trace:
  assumes "1 \<le> maxLen"
  shows "\<exists>tr. splitLoopTrace maxLen acc remaining = Some (acc @ tr) \<and>
              (\<forall>cs. splitLoop maxLen cs remaining = Some (cs @ map fst tr)) \<and>
              rejoin tr = remaining \<and> list_all (cutOk maxLen) tr"
proof (induction "length remaining" arbitrary: remaining acc rule: less_induct)
  case less
  show ?case
  proof (cases "remaining = []")
    case True
    then show ?thesis
      by (intro exI[of _ "[]"]) (simp add: splitLoop_empty splitLoopTrace_empty rejoin_Nil)
  next
    case nonempty: False
    show ?thesis
    proof (cases "length remaining \<le> maxLen")
      case True
      with nonempty show ?thesis
        by (intro exI[of _ "[(remaining, NoCut)]"])
           (simp add: splitLoop_fits splitLoopTrace_fits rejoin_Cons rejoin_Nil)
    next
      case False
      then have long: "maxLen < length remaining" by simp
      let ?p = "lastIndexOf remaining [NL, NL] maxLen"
      let ?l = "lastIndexOf remaining [NL] maxLen"
      show ?thesis
      proof (cases "0 < ?p")
        case True
        let ?c = "take (nat ?p) remaining" and ?r = "drop (nat ?p + 2) remaining"
        note pos = lastIndexOf_positive[OF True]
        have "length ?r < length remaining" using nonempty by simp
        from less[OF this, of "acc @ [(?c, ParagraphCut)]"] obtain tr where
          tr: "splitLoopTrace maxLen (acc @ [(?c, ParagraphCut)]) ?r
                 = Some ((acc @ [(?c, ParagraphCut)]) @ tr)"
              "\<And>cs. splitLoop maxLen cs ?r = Some (cs @ map fst tr)"
              "rejoin tr = ?r" "list_all (cutOk maxLen) tr"
          by blast
        have "rejoin ((?c, ParagraphCut) # tr) = remaining"
          using pos(3) tr(3) by (simp add: rejoin_Cons)
        moreover have "cutOk maxLen (?c, ParagraphCut)"
          using pos(1,2) long by simp
        ultimately show ?thesis
          using tr long True
          by (intro exI[of _ "(?c, ParagraphCut) # tr"])
             (simp add: splitLoop_paragraph splitLoopTrace_paragraph)
      next
        case noPara: False
        show ?thesis
        proof (cases "0 < ?l")
          case True
          let ?c = "take (nat ?l) remaining" and ?r = "drop (nat ?l + 1) remaining"
          note pos = lastIndexOf_positive[OF True]
          have "length ?r < length remaining" using nonempty by simp
          from less[OF this, of "acc @ [(?c, LineCut)]"] obtain tr where
            tr: "splitLoopTrace maxLen (acc @ [(?c, LineCut)]) ?r
                   = Some ((acc @ [(?c, LineCut)]) @ tr)"
                "\<And>cs. splitLoop maxLen cs ?r = Some (cs @ map fst tr)"
                "rejoin tr = ?r" "list_all (cutOk maxLen) tr"
            by blast
          have "rejoin ((?c, LineCut) # tr) = remaining"
            using pos(3) tr(3) by (simp add: rejoin_Cons)
          moreover have "cutOk maxLen (?c, LineCut)"
            using pos(1,2) long by simp
          ultimately show ?thesis
            using tr long True noPara
            by (intro exI[of _ "(?c, LineCut) # tr"])
               (simp add: splitLoop_line splitLoopTrace_line)
        next
          case noLine: False
          let ?c = "take maxLen remaining" and ?r = "drop maxLen remaining"
          have "length ?r < length remaining" using nonempty assms by simp
          from less[OF this, of "acc @ [(?c, HardCut)]"] obtain tr where
            tr: "splitLoopTrace maxLen (acc @ [(?c, HardCut)]) ?r
                   = Some ((acc @ [(?c, HardCut)]) @ tr)"
                "\<And>cs. splitLoop maxLen cs ?r = Some (cs @ map fst tr)"
                "rejoin tr = ?r" "list_all (cutOk maxLen) tr"
            by blast
          have "rejoin ((?c, HardCut) # tr) = remaining"
            using tr(3) by (simp add: rejoin_Cons)
          moreover have "cutOk maxLen (?c, HardCut)"
            using long by simp
          ultimately show ?thesis
            using tr long noPara noLine
            by (intro exI[of _ "(?c, HardCut) # tr"])
               (simp add: splitLoop_hard splitLoopTrace_hard)
        qed
      qed
    qed
  qed
qed

lemma splitMarkdown_trace:
  assumes "1 \<le> maxLen"
  shows "\<exists>tr. splitMarkdownTrace text maxLen = Some tr \<and>
              splitMarkdown text maxLen = Some (map fst tr) \<and>
              rejoin tr = text \<and> list_all (cutOk maxLen) tr \<and>
              (length text \<le> maxLen \<longrightarrow> tr = [(text, NoCut)])"
proof (cases "length text \<le> maxLen")
  case True
  then show ?thesis
    by (intro exI[of _ "[(text, NoCut)]"]) (simp add: splitMarkdown_def splitMarkdownTrace_def rejoin_Cons rejoin_Nil)
next
  case False
  from splitLoop_trace[OF assms, of "[]" "text"] obtain tr where
    "splitLoopTrace maxLen [] text = Some tr"
    "\<And>cs. splitLoop maxLen cs text = Some (cs @ map fst tr)"
    "rejoin tr = text" "list_all (cutOk maxLen) tr"
    by auto
  with False show ?thesis
    by (intro exI[of _ tr]) (simp add: splitMarkdown_def splitMarkdownTrace_def)
qed

lemma splitLoop_zero_aux:
  assumes "splitLoop maxLen cs remaining = Some y"
  shows "maxLen = 0 \<longrightarrow> remaining = []"
proof (rule splitLoop.raw_induct[where P = "\<lambda>m c r y. m = 0 \<longrightarrow> r = []", OF _ assms], goal_cases)
  case (1 f m chunks r y)
  show ?case
  proof (intro impI, rule ccontr)
    assume z: "m = 0" and ne: "r \<noteq> []"
    have "\<not> 0 < lastIndexOf r [NL, NL] 0" "\<not> 0 < lastIndexOf r [NL] 0"
      using lastIndexOf_zero_pos[of r "[NL, NL]"] lastIndexOf_zero_pos[of r "[NL]"]
      by auto
    with 1(2) z ne have "f 0 (chunks @ [[]]) r = Some y"
      by (simp add: Let_def)
    from 1(1)[OF this] ne show False by simp
  qed
qed

lemma splitMarkdown_zero: "text \<noteq> [] \<Longrightarrow> splitMarkdown text 0 = None"
  using splitLoop_zero_aux[of 0 "[]" "text"] by (cases "splitLoop 0 [] text") (auto simp: splitMarkdown_def)

lemma cutOk_bound: "cutOk maxLen ck \<Longrightarrow> length (fst ck) \<le> maxLen"
  by (cases ck, cases "snd ck") auto

lemma cutOk_consumed:
  "cutOk maxLen ck \<Longrightarrow>
     (snd ck = ParagraphCut \<longrightarrow> 3 \<le> consumed ck) \<and>
     (snd ck = LineCut \<longrightarrow> 2 \<le> consumed ck) \<and>
     (snd ck = HardCut \<longrightarrow> consumed ck = maxLen)"
  by (cases ck, cases "snd ck") (auto simp: consumed_def Suc_le_eq)

lemma splitMarkdown_no_newline_two:
  assumes "NL \<notin> set s" and "maxLen < length s" and "length s \<le> 2 * maxLen"
  shows "splitMarkdown s maxLen = Some [take maxLen s, drop maxLen s]"
proof -
  have np: "\<not> 0 < lastIndexOf s [NL, NL] maxLen" and nl: "\<not> 0 < lastIndexOf s [NL] maxLen"
    using assms(1) by (simp_all add: lastIndexOf_absent)
  have "splitLoop maxLen [] s = splitLoop maxLen ([] @ [take maxLen s]) (drop maxLen s)"
    by (rule splitLoop_hard[OF assms(2) np nl])
  also have "\<dots> = Some (([] @ [take maxLen s]) @ [drop maxLen s])"
    using assms(2,3) by (intro splitLoop_fits) auto
  finally show ?thesis using assms(2) by (simp add: splitMarkdown_def)
qed

lemma splitMarkdown_4500_A:
  "splitMarkdown (replicate 4500 (CHR ''A'')) 4000
     = Some [replicate 4000 (CHR ''A''), replicate 500 (CHR ''A'')]"
proof -
  have "splitMarkdown (replicate 4500 (CHR ''A'')) 4000
      = Some [take 4000 (replicate 4500 (CHR ''A'')), drop 4000 (replicate 4500 (CHR ''A''))]"
    by (rule splitMarkdown_no_newline_two) (simp_all add: NL_def)
  then show ?thesis by simp
qed

subsection \<open>Claims about the splitter\<close>

text \<open>
  Claim C5. For every text and every limit \<open>maxLen \<ge> 1\<close>: a text no longer than the limit
  is returned as the single chunk; in every case \<^verbatim>\<open>splitMarkdown\<close> returns and each
  chunk it returns is at most \<open>maxLen\<close> long. 4500 letters A at limit 4000 split into
  4000 and 500 letters; 4000 letters B at limit 4000 stay one chunk.
\<close>

theorem splitMarkdown_chunks_bounded:
  "1 \<le> maxLen \<Longrightarrow>
     (length text \<le> maxLen \<longrightarrow> splitMarkdown text maxLen = Some [text]) \<and>
     (\<exists>chunks. splitMarkdown text maxLen = Some chunks \<and>
               (\<forall>c \<in> set chunks. length c \<le> maxLen)) \<and>
     splitMarkdown (replicate 4500 (CHR ''A'')) 4000
       = Some [replicate 4000 (CHR ''A''), replicate 500 (CHR ''A'')] \<and>
     splitMarkdown (replicate 4000 (CHR ''B'')) 4000 = Some [replicate 4000 (CHR ''B'')]"
proof -
  assume L: "1 \<le> maxLen"
  from splitMarkdown_trace[OF L, of "text"] obtain tr where
    tr: "splitMarkdown text maxLen = Some (map fst tr)" "list_all (cutOk maxLen) tr"
    by blast
  have "\<forall>c \<in> set (map fst tr). length c \<le> maxLen"
    using tr(2) cutOk_bound by (auto simp: list_all_iff)
  with tr(1) have bounded: "\<exists>chunks. splitMarkdown text maxLen = Some chunks \<and>
      (\<forall>c \<in> set chunks. length c \<le> maxLen)"
    by blast
  have fits: "length text \<le> maxLen \<longrightarrow> splitMarkdown text maxLen = Some [text]"
    by (simp add: splitMarkdown_def)
  have exA: "splitMarkdown (replicate 4500 (CHR ''A'')) 4000
      = Some [replicate 4000 (CHR ''A''), replicate 500 (CHR ''A'')]"
    by (rule splitMarkdown_4500_A)
  have exB: "splitMarkdown (replicate 4000 (CHR ''B'')) 4000 = Some [replicate 4000 (CHR ''B'')]"
    by (simp add: splitMarkdown_def)
  from fits bounded exA exB show ?thesis by blast
qed

theorem splitMarkdown_chunks_bounded_witness:
  "(1::nat) \<le> 100 \<and> splitMarkdown ''short text'' 100 = Some [''short text''] \<and>
   (1::nat) \<le> 12 \<and>
   splitMarkdown ''para1\<newline>\<newline>para2\<newline>\<newline>para3'' 12
     = Some [''para1\<newline>\<newline>para2'', ''para3''] \<and>
   (\<exists>chunks. splitMarkdown ''para1\<newline>\<newline>para2\<newline>\<newline>para3'' 12 = Some chunks \<and>
             (\<forall>c \<in> set chunks. length c \<le> 12))"
proof -
  have ev: "splitMarkdown ''para1\<newline>\<newline>para2\<newline>\<newline>para3'' 12
      = Some [''para1\<newline>\<newline>para2'', ''para3'']"
    by code_simp
  from splitMarkdown_chunks_bounded[of 100 "''short text''"]
    splitMarkdown_chunks_bounded[of 12 "''para1\<newline>\<newline>para2\<newline>\<newline>para3''"] ev
  show ?thesis by simp
qed

text \<open>
  Claim C6. For every text and every limit \<open>maxLen \<ge> 1\<close>, writing the chunks of
  \<^verbatim>\<open>splitMarkdown\<close> one after the other, each followed by the separator its cut
  consumed (two line feeds at a paragraph cut, one at a line cut, nothing at a hard cut
  or after the final remainder), gives the text back: no code unit is dropped or
  duplicated.
\<close>

theorem splitMarkdown_rejoin:
  "1 \<le> maxLen \<Longrightarrow>
     \<exists>tr. splitMarkdownTrace text maxLen = Some tr \<and>
          splitMarkdown text maxLen = Some (map fst tr) \<and>
          rejoin tr = text \<and>
          length text = sum_list (map consumed tr)"
proof -
  assume L: "1 \<le> maxLen"
  from splitMarkdown_trace[OF L, of "text"] obtain tr where
    tr: "splitMarkdownTrace text maxLen = Some tr"
        "splitMarkdown text maxLen = Some (map fst tr)" "rejoin tr = text"
    by blast
  have "length (rejoin xs) = sum_list (map consumed xs)" for xs
    by (induction xs) (auto simp: rejoin_def consumed_def)
  with tr show ?thesis by metis
qed

theorem splitMarkdown_rejoin_witness:
  "(1::nat) \<le> 3 \<and>
   splitMarkdownTrace ''ab\<newline>\<newline>cd\<newline>efgh'' 3
     = Some [(''ab'', ParagraphCut), (''cd'', LineCut), (''efg'', HardCut), (''h'', NoCut)] \<and>
   splitMarkdown ''ab\<newline>\<newline>cd\<newline>efgh'' 3 = Some [''ab'', ''cd'', ''efg'', ''h''] \<and>
   rejoin [(''ab'', ParagraphCut), (''cd'', LineCut), (''efg'', HardCut), (''h'', NoCut)]
     = ''ab\<newline>\<newline>cd\<newline>efgh''"
proof -
  have ev: "splitMarkdownTrace ''ab\<newline>\<newline>cd\<newline>efgh'' 3
      = Some [(''ab'', ParagraphCut), (''cd'', LineCut), (''efg'', HardCut), (''h'', NoCut)]"
    by code_simp
  from splitMarkdown_rejoin[of 3 "''ab\<newline>\<newline>cd\<newline>efgh''"] ev
  show ?thesis by auto
qed

text \<open>
  Claim C10. For every text, \<^verbatim>\<open>splitMarkdown\<close> returns whenever \<open>maxLen \<ge> 1\<close>: every
  iteration that cuts shortens the remaining string, a paragraph cut by at least 3 code
  units, a line cut by at least 2, a hard cut by exactly \<open>maxLen\<close>. The bound on
  \<open>maxLen\<close> is needed: at \<open>maxLen = 0\<close> the loop never returns on a non-empty text.
\<close>

theorem splitMarkdown_terminates:
  "(1 \<le> maxLen \<longrightarrow>
      (\<exists>tr. splitMarkdownTrace text maxLen = Some tr \<and>
            splitMarkdown text maxLen = Some (map fst tr) \<and>
            (\<forall>ck \<in> set tr.
               (snd ck = ParagraphCut \<longrightarrow> 3 \<le> consumed ck) \<and>
               (snd ck = LineCut \<longrightarrow> 2 \<le> consumed ck) \<and>
               (snd ck = HardCut \<longrightarrow> consumed ck = maxLen)))) \<and>
   (text \<noteq> [] \<longrightarrow> splitMarkdown text 0 = None)"
proof (intro conjI impI)
  assume L: "1 \<le> maxLen"
  from splitMarkdown_trace[OF L, of "text"] obtain tr where
    tr: "splitMarkdownTrace text maxLen = Some tr"
        "splitMarkdown text maxLen = Some (map fst tr)" "list_all (cutOk maxLen) tr"
    by blast
  from tr(3) have "\<forall>ck \<in> set tr. cutOk maxLen ck"
    by (simp add: list_all_iff)
  then have "\<forall>ck \<in> set tr.
               (snd ck = ParagraphCut \<longrightarrow> 3 \<le> consumed ck) \<and>
               (snd ck = LineCut \<longrightarrow> 2 \<le> consumed ck) \<and>
               (snd ck = HardCut \<longrightarrow> consumed ck = maxLen)"
    using cutOk_consumed by blast
  with tr(1,2) show "\<exists>tr. splitMarkdownTrace text maxLen = Some tr \<and>
            splitMarkdown text maxLen = Some (map fst tr) \<and>
            (\<forall>ck \<in> set tr.
               (snd ck = ParagraphCut \<longrightarrow> 3 \<le> consumed ck) \<and>
               (snd ck = LineCut \<longrightarrow> 2 \<le> consumed ck) \<and>
               (snd ck = HardCut \<longrightarrow> consumed ck = maxLen))"
    by blast
next
  assume "text \<noteq> []"
  then show "splitMarkdown text 0 = None" by (rule splitMarkdown_zero)
qed

theorem splitMarkdown_terminates_witness:
  "(1::nat) \<le> 8 \<and>
   splitMarkdown (replicate 20 (CHR ''A'')) 8
     = Some [replicate 8 (CHR ''A''), replicate 8 (CHR ''A''), replicate 4 (CHR ''A'')] \<and>
   ''A'' \<noteq> [] \<and> splitMarkdown ''A'' 0 = None"
proof -
  have ev: "splitMarkdown (replicate 20 (CHR ''A'')) 8
     = Some [replicate 8 (CHR ''A''), replicate 8 (CHR ''A''), replicate 4 (CHR ''A'')]"
    by code_simp
  from splitMarkdown_terminates[of 8 "replicate 20 (CHR ''A'')"]
    splitMarkdown_terminates[of 0 "''A''"] ev
  show ?thesis by simp
qed

subsection \<open>Facts about the inbound handler\<close>

text \<open>
  The handler by cases: no message; a duplicate; filtered after the id is recorded; a
  creation time outside the range of \<^verbatim>\<open>Date\<close>; accepted.
\<close>

lemma handle_no_message:
  "message data = None \<Longrightarrow> handleIncomingMessage cfg groups now data s = (Inr (), [], s)"
  by (simp add: handleIncomingMessage_def)

lemma handle_duplicate:
  "message data = Some m \<Longrightarrow> isDuplicate (message_id m) s \<Longrightarrow>
   handleIncomingMessage cfg groups now data s = (Inr (), [], s)"
  by (simp add: handleIncomingMessage_def)

lemma handle_filtered:
  assumes "message data = Some m" and "\<not> isDuplicate (message_id m) s"
    and "message_type m \<noteq> ''text'' \<or> content m = Unparseable \<or> content m = NoText \<or>
         content m = TextOf [] \<or> \<not> truthy (chat_id m)"
  shows "handleIncomingMessage cfg groups now data s
           = (Inr (), [], recordMessage now (message_id m) s)"
  using assms by (auto simp: handleIncomingMessage_def Let_def split: json_text.splits)

lemma handle_range_error:
  assumes "message data = Some m" and "\<not> isDuplicate (message_id m) s"
    and "message_type m = ''text''" and "content m = TextOf t" and "t \<noteq> []"
    and "truthy (chat_id m)" and "\<not> validTime (timestampMs now (create_time m))"
  shows "handleIncomingMessage cfg groups now data s
           = (Inl RangeError, [], recordMessage now (message_id m) s)"
  using assms by (simp add: handleIncomingMessage_def Let_def)

lemma handle_accepted:
  assumes "message data = Some m" and "\<not> isDuplicate (message_id m) s"
    and "message_type m = ''text''" and "content m = TextOf t" and "t \<noteq> []"
    and "truthy (chat_id m)" and "validTime (timestampMs now (create_time m))"
  shows "handleIncomingMessage cfg groups now data s
           = (Inr (),
              OnChatMetadata (''lark:'' @ orElse (chat_id m) []) (timestampMs now (create_time m))
                 None ''lark'' (chat_type m \<noteq> ''p2p'')
              # RegisteredGroups
              # (case groups (''lark:'' @ orElse (chat_id m) []) of
                   None \<Rightarrow> []
                 | Some g \<Rightarrow>
                     [OnMessage (''lark:'' @ orElse (chat_id m) [])
                        (buildMessage cfg s data m (''lark:'' @ orElse (chat_id m) [])
                           (timestampMs now (create_time m)) t)]),
              recordMessage now (message_id m) s)"
  using assms by (simp add: handleIncomingMessage_def Let_def split: option.splits)

lemma handle_cases:
  obtains (silent) s1 r where "handleIncomingMessage cfg groups now data s = (r, [], s1)"
  | (accepted) m t where "message data = Some m" "\<not> isDuplicate (message_id m) s"
      "message_type m = ''text''" "content m = TextOf t" "t \<noteq> []"
      "truthy (chat_id m)" "validTime (timestampMs now (create_time m))"
proof (cases "message data")
  case None
  then show ?thesis using silent handle_no_message by blast
next
  case (Some m)
  show ?thesis
  proof (cases "isDuplicate (message_id m) s")
    case True
    then show ?thesis using silent handle_duplicate Some by blast
  next
    case nodup: False
    show ?thesis
    proof (cases "message_type m \<noteq> ''text'' \<or> content m = Unparseable \<or> content m = NoText \<or>
         content m = TextOf [] \<or> \<not> truthy (chat_id m)")
      case True
      then show ?thesis using silent handle_filtered[OF Some nodup] by blast
    next
      case False
      then obtain t where t: "message_type m = ''text''" "content m = TextOf t" "t \<noteq> []" "truthy (chat_id m)"
        by (cases "content m") auto
      show ?thesis
      proof (cases "validTime (timestampMs now (create_time m))")
        case True
        then show ?thesis using accepted Some nodup t by blast
      next
        case False
        then show ?thesis using silent handle_range_error[OF Some nodup t] by blast
      qed
    qed
  qed
qed

subsection \<open>Claims about the inbound handler\<close>

text \<open>
  Claim C1, as the code has it. \<^verbatim>\<open>onChatMetadata\<close> is called after the content
  filters, not before them. An event that is not a duplicate, is of type \<^verbatim>\<open>text\<close>,
  carries a non-empty text, a non-empty chat id and a creation time in the range of
  \<^verbatim>\<open>Date\<close> makes exactly one call of \<^verbatim>\<open>onChatMetadata\<close>, for the jid
  \<^verbatim>\<open>lark:\<close> followed by the chat id, whatever the registered groups are. An event
  that is a duplicate, is not of type \<^verbatim>\<open>text\<close>, or whose content does not parse or
  has no or an empty text makes no callback at all.
\<close>

theorem chat_metadata_after_filters:
  "message data = Some m \<Longrightarrow>
     (\<not> isDuplicate (message_id m) s \<and> message_type m = ''text'' \<and> content m = TextOf t \<and>
      t \<noteq> [] \<and> chat_id m = Some c \<and> c \<noteq> [] \<and> validTime (timestampMs now (create_time m))
        \<longrightarrow> filter isOnChatMetadata (fst (snd (handleIncomingMessage cfg groups now data s)))
              = [OnChatMetadata (''lark:'' @ c) (timestampMs now (create_time m)) None ''lark''
                   (chat_type m \<noteq> ''p2p'')]) \<and>
     (isDuplicate (message_id m) s \<or> message_type m \<noteq> ''text'' \<or> content m = Unparseable \<or>
      content m = NoText \<or> content m = TextOf []
        \<longrightarrow> fst (snd (handleIncomingMessage cfg groups now data s)) = [])"
proof (intro conjI impI)
  assume m: "message data = Some m"
  assume a: "\<not> isDuplicate (message_id m) s \<and> message_type m = ''text'' \<and> content m = TextOf t \<and>
      t \<noteq> [] \<and> chat_id m = Some c \<and> c \<noteq> [] \<and> validTime (timestampMs now (create_time m))"
  then have tr: "truthy (chat_id m)" and oe: "orElse (chat_id m) [] = c"
    by (simp_all add: truthy_def orElse_def)
  from a have "handleIncomingMessage cfg groups now data s
           = (Inr (),
              OnChatMetadata (''lark:'' @ orElse (chat_id m) []) (timestampMs now (create_time m))
                 None ''lark'' (chat_type m \<noteq> ''p2p'')
              # RegisteredGroups
              # (case groups (''lark:'' @ orElse (chat_id m) []) of
                   None \<Rightarrow> []
                 | Some g \<Rightarrow>
                     [OnMessage (''lark:'' @ orElse (chat_id m) [])
                        (buildMessage cfg s data m (''lark:'' @ orElse (chat_id m) [])
                           (timestampMs now (create_time m)) t)]),
              recordMessage now (message_id m) s)"
    by (intro handle_accepted m tr) simp_all
  then show "filter isOnChatMetadata (fst (snd (handleIncomingMessage cfg groups now data s)))
              = [OnChatMetadata (''lark:'' @ c) (timestampMs now (create_time m)) None ''lark''
                   (chat_type m \<noteq> ''p2p'')]"
    by (simp add: oe split: option.splits)
next
  assume m: "message data = Some m"
  assume b: "isDuplicate (message_id m) s \<or> message_type m \<noteq> ''text'' \<or> content m = Unparseable \<or>
      content m = NoText \<or> content m = TextOf []"
  show "fst (snd (handleIncomingMessage cfg groups now data s)) = []"
  proof (cases "isDuplicate (message_id m) s")
    case True
    then show ?thesis by (simp add: handle_duplicate[OF m])
  next
    case False
    with b have "message_type m \<noteq> ''text'' \<or> content m = Unparseable \<or> content m = NoText \<or>
         content m = TextOf [] \<or> \<not> truthy (chat_id m)" by blast
    from handle_filtered[OF m False this] show ?thesis by simp
  qed
qed

text \<open>
  The theorem at an event for an unregistered chat (metadata is reported) and at an event
  whose content does not parse (nothing is reported).
\<close>

theorem chat_metadata_after_filters_witness:
  "filter isOnChatMetadata (fst (snd (handleIncomingMessage test_config Map.empty 1704067201000
      (test_event (test_message\<lparr> chat_id := Some ''oc_unregistered'' \<rparr>)) test_channel)))
     = [OnChatMetadata ''lark:oc_unregistered'' 1704067200000 None ''lark'' True] \<and>
   fst (snd (handleIncomingMessage test_config test_groups 1704067201000
      (test_event (test_message\<lparr> content := Unparseable \<rparr>)) test_channel)) = []"
proof -
  let ?m = "test_message\<lparr> chat_id := Some ''oc_unregistered'' \<rparr>"
  let ?u = "test_message\<lparr> content := Unparseable \<rparr>"
  have ts: "timestampMs 1704067201000 (create_time ?m) = 1704067200000"
    by code_simp
  have pre: "\<not> isDuplicate (message_id ?m) test_channel \<and> message_type ?m = ''text'' \<and>
      content ?m = TextOf ''Hello everyone'' \<and> ''Hello everyone'' \<noteq> [] \<and>
      chat_id ?m = Some ''oc_unregistered'' \<and> ''oc_unregistered'' \<noteq> [] \<and>
      validTime (timestampMs 1704067201000 (create_time ?m))"
    by code_simp
  have grp: "(chat_type ?m \<noteq> ''p2p'') = True" by code_simp
  from chat_metadata_after_filters[of "test_event ?m" ?m test_channel "''Hello everyone''"
      "''oc_unregistered''" 1704067201000 test_config Map.empty]
    chat_metadata_after_filters[of "test_event ?u" ?u test_channel "[]" "[]" 1704067201000 test_config
      test_groups]
    pre ts grp
  show ?thesis by (simp add: test_event_def)
qed

text \<open>
  Claim C1 as stated fails: the event of the test \<^verbatim>\<open>skips non-text message types\<close> has
  a chat id and the message type \<^verbatim>\<open>image\<close>; its id is recorded and no callback is
  made, so no chat metadata is reported for it.
\<close>

theorem chat_metadata_not_for_image_counterexample:
  "truthy (chat_id (test_message\<lparr> message_type := ''image'' \<rparr>)) \<and>
   handleIncomingMessage test_config test_groups 1704067201000
     (test_event (test_message\<lparr> message_type := ''image'' \<rparr>)) test_channel
   = (Inr (), [], test_channel\<lparr> seenMessages := [(''om_test_msg_001'', 1704067201000)] \<rparr>)"
  by code_simp

text \<open>
  An entry of the dedup store survives the handling of any event, and survives a sweep
  unless it is older than the TTL.
\<close>

lemma handle_state:
  "snd (snd (handleIncomingMessage cfg groups now data s)) = s \<or>
   (\<exists>m. message data = Some m \<and> \<not> isDuplicate (message_id m) s \<and>
        snd (snd (handleIncomingMessage cfg groups now data s)) = recordMessage now (message_id m) s)"
  by (auto simp: handleIncomingMessage_def Let_def split: option.splits json_text.splits)

lemma recordMessage_keeps:
  assumes "map_of (seenMessages s) k = Some v" and "\<not> isDuplicate messageId s"
  shows "map_of (seenMessages (recordMessage now messageId s)) k = Some v"
proof (cases "truthy messageId")
  case True
  with assms(2) have "map_of (seenMessages s) (orElse messageId []) = None"
    by (simp add: isDuplicate_def seenHas_def)
  with assms(1) have "orElse messageId [] \<noteq> k" by auto
  with assms(1) True show ?thesis
    by (simp add: recordMessage_def update_conv')
next
  case False
  with assms(1) show ?thesis by (simp add: recordMessage_def)
qed

lemma handle_keeps:
  assumes "map_of (seenMessages s) k = Some v"
  shows "map_of (seenMessages (snd (snd (handleIncomingMessage cfg groups now data s)))) k = Some v"
  using handle_state[of cfg groups now data s] assms recordMessage_keeps by auto

lemma cleanupDedup_keeps:
  assumes "map_of (seenMessages s) k = Some v" and "now - v \<le> DEDUP_TTL_MS"
  shows "map_of (seenMessages (cleanupDedup now s)) k = Some v"
  using assms by (simp add: cleanupDedup_def map_of_filter_in)

lemma runOps_keeps:
  assumes "map_of (seenMessages s) k = Some v"
    and "\<forall>x \<in> set ops. opTime x - v \<le> DEDUP_TTL_MS"
  shows "map_of (seenMessages (snd (runOps cfg ops s))) k = Some v"
  using assms
proof (induction ops arbitrary: s)
  case Nil
  then show ?case by simp
next
  case (Cons x ops)
  show ?case
  proof (cases x)
    case (Incoming now groups data)
    obtain r emitted s1 where h: "handleIncomingMessage cfg groups now data s = (r, emitted, s1)"
      by (cases "handleIncomingMessage cfg groups now data s") auto
    with handle_keeps[OF Cons.prems(1), of cfg groups now data]
    have "map_of (seenMessages s1) k = Some v" by simp
    from Cons.IH[OF this] Cons.prems(2) have "map_of (seenMessages (snd (runOps cfg ops s1))) k = Some v"
      by simp
    with Incoming h show ?thesis by (cases "runOps cfg ops s1") simp
  next
    case (Sweep now)
    with Cons.prems(2) have "now - v \<le> DEDUP_TTL_MS" by simp
    from cleanupDedup_keeps[OF Cons.prems(1) this] have "map_of (seenMessages (cleanupDedup now s)) k = Some v" .
    from Cons.IH[OF this] Cons.prems(2) Sweep show ?thesis by simp
  qed
qed

lemma handle_state_recorded:
  "message data = Some m \<Longrightarrow> \<not> isDuplicate (message_id m) s \<Longrightarrow>
   snd (snd (handleIncomingMessage cfg groups now data s)) = recordMessage now (message_id m) s"
  by (auto simp: handleIncomingMessage_def Let_def split: option.splits json_text.splits)

lemma handle_records:
  assumes "message data = Some m" and "message_id m = Some mid" and "mid \<noteq> []"
  shows "map_of (seenMessages (snd (snd (handleIncomingMessage cfg groups now data s)))) mid
           = (if isDuplicate (Some mid) s then map_of (seenMessages s) mid else Some now)"
proof (cases "isDuplicate (Some mid) s")
  case True
  with assms show ?thesis by (simp add: handle_duplicate)
next
  case False
  with handle_state_recorded[OF assms(1), of s cfg groups now] assms(2)
  have "snd (snd (handleIncomingMessage cfg groups now data s)) = recordMessage now (Some mid) s"
    by simp
  with False assms(3) show ?thesis
    by (simp add: recordMessage_def truthy_def orElse_def update_conv')
qed

lemma handle_at_most_one_message:
  "length (filter isOnMessage (fst (snd (handleIncomingMessage cfg groups now data s)))) \<le> 1"
  by (auto simp: handleIncomingMessage_def Let_def split: option.splits json_text.splits)

text \<open>
  Claim C3. Two events carry the same non-empty message id. After the first is handled
  the id is recorded with its first-seen time (the time of the first event, unless the
  id was recorded before). Whatever events and sweeps happen in between, none of them
  later than the second event, if the second event arrives no later than the TTL after
  the first-seen time, it is discarded: no callback, no change of state. So the two
  events together make at most one call of \<^verbatim>\<open>onMessage\<close>.
\<close>

theorem duplicate_within_ttl_discarded:
  assumes "message data1 = Some m1" and "message data2 = Some m2"
    and "message_id m1 = Some mid" and "message_id m2 = Some mid" and "mid \<noteq> []"
    and "handleIncomingMessage cfg groups1 t1 data1 s0 = (r1, emitted1, s1)"
    and "runOps cfg ops s1 = (between, s2)"
    and "handleIncomingMessage cfg groups2 t2 data2 s2 = (r2, emitted2, s3)"
    and "map_of (seenMessages s1) mid = Some firstSeen"
    and "\<forall>x \<in> set ops. opTime x \<le> t2" and "t2 - firstSeen \<le> DEDUP_TTL_MS"
  shows "r2 = Inr () \<and> emitted2 = [] \<and> s3 = s2 \<and>
         length (filter isOnMessage (emitted1 @ emitted2)) \<le> 1 \<and>
         (\<not> isDuplicate (Some mid) s0 \<longrightarrow> firstSeen = t1)"
proof -
  from assms(10,11) have "\<forall>x \<in> set ops. opTime x - firstSeen \<le> DEDUP_TTL_MS" by auto
  from runOps_keeps[OF assms(9) this, of cfg] assms(7)
  have "map_of (seenMessages s2) mid = Some firstSeen" by simp
  with assms(4,5) have "isDuplicate (message_id m2) s2"
    by (simp add: isDuplicate_def truthy_def seenHas_def orElse_def)
  from handle_duplicate[OF assms(2) this, of cfg groups2 t2] assms(8)
  have second: "r2 = Inr ()" "emitted2 = []" "s3 = s2" by simp_all
  from handle_at_most_one_message[of cfg groups1 t1 data1 s0] assms(6)
  have "length (filter isOnMessage emitted1) \<le> 1" by simp
  moreover from handle_records[OF assms(1,3,5), of cfg groups1 t1 s0] assms(6,9)
  have "\<not> isDuplicate (Some mid) s0 \<longrightarrow> firstSeen = t1" by (auto split: if_splits)
  ultimately show ?thesis using second by simp
qed

text \<open>
  The theorem at the event of the test \<^verbatim>\<open>deduplicates messages by message_id\<close>: a
  sweep after five minutes, another event, a sweep at exactly ten minutes, and the
  duplicate at ten minutes.
\<close>

theorem duplicate_within_ttl_discarded_witness:
  "handleIncomingMessage test_config test_groups 1704067201000 dup_event test_channel
     = (Inr (),
        [OnChatMetadata ''lark:oc_test123'' 1704067200000 None ''lark'' True, RegisteredGroups,
         OnMessage ''lark:oc_test123''
           \<lparr> msg_id = ''om_dup_001'', chat_jid = ''lark:oc_test123'', sender = ''ou_USER_456'',
             sender_name = ''ou_USER_456'', msg_content = ''Hello everyone'',
             timestamp = 1704067200000, is_from_me = False, is_bot_message = False \<rparr>],
        test_channel\<lparr> seenMessages := [(''om_dup_001'', 1704067201000)] \<rparr>) \<and>
   snd (runOps test_config dup_ops
          (test_channel\<lparr> seenMessages := [(''om_dup_001'', 1704067201000)] \<rparr>))
     = test_channel\<lparr> seenMessages := [(''om_dup_001'', 1704067201000),
                                         (''om_test_msg_001'', 1704067600000)] \<rparr> \<and>
   handleIncomingMessage test_config Map.empty 1704067801000 dup_event
       (test_channel\<lparr> seenMessages := [(''om_dup_001'', 1704067201000),
                                          (''om_test_msg_001'', 1704067600000)] \<rparr>)
     = (Inr (), [],
        test_channel\<lparr> seenMessages := [(''om_dup_001'', 1704067201000),
                                          (''om_test_msg_001'', 1704067600000)] \<rparr>)"
proof -
  let ?m = "test_message\<lparr> message_id := Some ''om_dup_001'' \<rparr>"
  let ?s1 = "test_channel\<lparr> seenMessages := [(''om_dup_001'', 1704067201000)] \<rparr>"
  let ?s2 = "test_channel\<lparr> seenMessages := [(''om_dup_001'', 1704067201000),
                                         (''om_test_msg_001'', 1704067600000)] \<rparr>"
  let ?em = "[OnChatMetadata ''lark:oc_test123'' 1704067200000 None ''lark'' True, RegisteredGroups,
         OnMessage ''lark:oc_test123''
           \<lparr> msg_id = ''om_dup_001'', chat_jid = ''lark:oc_test123'', sender = ''ou_USER_456'',
             sender_name = ''ou_USER_456'', msg_content = ''Hello everyone'',
             timestamp = 1704067200000, is_from_me = False, is_bot_message = False \<rparr>]"
  let ?h2 = "handleIncomingMessage test_config Map.empty 1704067801000 dup_event ?s2"
  have h1: "message dup_event = Some ?m" by code_simp
  have h3: "message_id ?m = Some ''om_dup_001''" by code_simp
  have h5: "''om_dup_001'' \<noteq> []" by simp
  have h6: "handleIncomingMessage test_config test_groups 1704067201000 dup_event test_channel
              = (Inr (), ?em, ?s1)" by code_simp
  have h7: "runOps test_config dup_ops ?s1 = (fst (runOps test_config dup_ops ?s1), ?s2)"
    by code_simp
  have h8: "?h2 = (fst ?h2, fst (snd ?h2), snd (snd ?h2))" by simp
  have h9: "map_of (seenMessages ?s1) ''om_dup_001'' = Some 1704067201000" by code_simp
  have h10: "\<forall>x \<in> set dup_ops. opTime x \<le> 1704067801000" by code_simp
  have h11: "(1704067801000::int) - 1704067201000 \<le> DEDUP_TTL_MS" by code_simp
  from duplicate_within_ttl_discarded[OF h1 h1 h3 h3 h5 h6 h7 h8 h9 h10 h11]
  have res: "?h2 = (Inr (), [], ?s2)" by (metis prod.collapse)
  have mid: "snd (runOps test_config dup_ops ?s1) = ?s2" by (subst h7) (rule snd_conv)
  from h6 mid res show ?thesis by (intro conjI)
qed

text \<open>
  Claim C9. \<^verbatim>\<open>onMessage\<close> is called for an event only with the jid of the event and
  only if that jid is a key of the mapping the provider returned during the handling of
  this event: the call of the provider is the callback just before it, and the state of
  the channel holds no copy of the mapping. An event for a jid that is not a key makes no
  call of \<^verbatim>\<open>onMessage\<close>; an accepted event for a jid that is a key makes one. The
  provider is called at most once per event.
\<close>

theorem message_only_for_registered:
  assumes "handleIncomingMessage cfg groups now data s = (r, emitted, s1)"
  shows "(\<forall>jid msg. OnMessage jid msg \<in> set emitted \<longrightarrow>
            groups jid \<noteq> None \<and>
            (\<exists>m metadata. message data = Some m \<and> jid = ''lark:'' @ orElse (chat_id m) [] \<and>
                 emitted = [metadata, RegisteredGroups, OnMessage jid msg])) \<and>
         (\<forall>m. message data = Some m \<longrightarrow> groups (''lark:'' @ orElse (chat_id m) []) = None \<longrightarrow>
              filter isOnMessage emitted = []) \<and>
         (\<forall>m t. message data = Some m \<and> \<not> isDuplicate (message_id m) s \<and>
                message_type m = ''text'' \<and> content m = TextOf t \<and> t \<noteq> [] \<and>
                truthy (chat_id m) \<and> validTime (timestampMs now (create_time m)) \<and>
                groups (''lark:'' @ orElse (chat_id m) []) \<noteq> None \<longrightarrow>
              (\<exists>metadata msg. emitted = [metadata, RegisteredGroups,
                                        OnMessage (''lark:'' @ orElse (chat_id m) []) msg])) \<and>
         length (filter (\<lambda>c. c = RegisteredGroups) emitted) \<le> 1"
proof (rule handle_cases[of cfg groups now data s])
  fix s' r'
  assume "handleIncomingMessage cfg groups now data s = (r', [], s')"
  with assms have e: "emitted = []" by simp
  have "\<not> (message data = Some m \<and> \<not> isDuplicate (message_id m) s \<and>
                message_type m = ''text'' \<and> content m = TextOf t \<and> t \<noteq> [] \<and>
                truthy (chat_id m) \<and> validTime (timestampMs now (create_time m)))" for m t
  proof
    assume a: "message data = Some m \<and> \<not> isDuplicate (message_id m) s \<and>
                message_type m = ''text'' \<and> content m = TextOf t \<and> t \<noteq> [] \<and>
                truthy (chat_id m) \<and> validTime (timestampMs now (create_time m))"
    then have "fst (snd (handleIncomingMessage cfg groups now data s)) \<noteq> []"
      by (subst handle_accepted[of data m s t now cfg groups]) simp_all
    with assms e show False by simp
  qed
  with e show ?thesis by auto
next
  fix m t
  assume a: "message data = Some m" "\<not> isDuplicate (message_id m) s"
      "message_type m = ''text''" "content m = TextOf t" "t \<noteq> []"
      "truthy (chat_id m)" "validTime (timestampMs now (create_time m))"
  let ?jid = "''lark:'' @ orElse (chat_id m) []"
  from handle_accepted[OF a, of cfg groups] assms
  have e: "emitted = OnChatMetadata ?jid (timestampMs now (create_time m)) None ''lark''
                 (chat_type m \<noteq> ''p2p'')
              # RegisteredGroups
              # (case groups ?jid of
                   None \<Rightarrow> []
                 | Some g \<Rightarrow>
                     [OnMessage ?jid (buildMessage cfg s data m ?jid (timestampMs now (create_time m)) t)])"
    by simp
  show ?thesis
  proof (cases "groups ?jid")
    case None
    with e a(1) show ?thesis by auto
  next
    case (Some g)
    with e a(1) show ?thesis by auto
  qed
qed

text \<open>
  The theorem on a run of two events for the same chat: the chat is not registered when
  the first is handled and is registered when the second is; only the second is
  delivered.
\<close>

theorem message_only_for_registered_witness:
  "fst (runOps test_config registration_ops test_channel)
     = [OnChatMetadata ''lark:oc_test123'' 1704067200000 None ''lark'' True, RegisteredGroups,
        OnChatMetadata ''lark:oc_test123'' 1704067200000 None ''lark'' True, RegisteredGroups,
        OnMessage ''lark:oc_test123''
           \<lparr> msg_id = ''om_test_msg_002'', chat_jid = ''lark:oc_test123'', sender = ''ou_USER_456'',
             sender_name = ''ou_USER_456'', msg_content = ''Hello everyone'',
             timestamp = 1704067200000, is_from_me = False, is_bot_message = False \<rparr>] \<and>
   test_groups ''lark:oc_test123'' \<noteq> None \<and>
   filter isOnMessage (fst (snd (handleIncomingMessage test_config Map.empty 1704067201000
      (test_event test_message) test_channel))) = []"
proof -
  let ?h = "handleIncomingMessage test_config Map.empty 1704067201000 (test_event test_message)
              test_channel"
  have run: "fst (runOps test_config registration_ops test_channel)
     = [OnChatMetadata ''lark:oc_test123'' 1704067200000 None ''lark'' True, RegisteredGroups,
        OnChatMetadata ''lark:oc_test123'' 1704067200000 None ''lark'' True, RegisteredGroups,
        OnMessage ''lark:oc_test123''
           \<lparr> msg_id = ''om_test_msg_002'', chat_jid = ''lark:oc_test123'', sender = ''ou_USER_456'',
             sender_name = ''ou_USER_456'', msg_content = ''Hello everyone'',
             timestamp = 1704067200000, is_from_me = False, is_bot_message = False \<rparr>]"
    by code_simp
  have reg: "test_groups ''lark:oc_test123'' \<noteq> None" by (simp add: test_groups_def)
  have h: "?h = (fst ?h, fst (snd ?h), snd (snd ?h))" by simp
  have m: "message (test_event test_message) = Some test_message" by (simp add: test_event_def)
  have un: "Map.empty (''lark:'' @ orElse (chat_id test_message) []) = (None :: RegisteredGroup option)"
    by simp
  from message_only_for_registered[OF h] m un
  have "filter isOnMessage (fst (snd ?h)) = []" by blast
  with run reg show ?thesis by (intro conjI)
qed

text \<open>
  Claim C4. The claim holds on the inputs of the test suite (lemma
  \<open>mention_translation_tests\<close>), for messages of the bot itself and for mention lists
  without the bot. It fails where the key of the bot's mention occurs earlier in the text
  inside the key of another mention: \<^verbatim>\<open>content.replace(mention.key, ...)\<close> rewrites the
  first occurrence of the key as a substring. Here the bot has the key \<^verbatim>\<open>@_user_1\<close>
  and another user the key \<^verbatim>\<open>@_user_10\<close>: the other user's placeholder is rewritten
  and the bot's own placeholder stays.
\<close>

theorem mention_key_overlap_rewrites_other_mention:
  "handleIncomingMessage test_config test_groups 1704067201000 overlap_event test_channel
     = (Inr (),
        [OnChatMetadata ''lark:oc_test123'' 1704067200000 None ''lark'' True, RegisteredGroups,
         OnMessage ''lark:oc_test123''
           \<lparr> msg_id = ''om_test_msg_001'', chat_jid = ''lark:oc_test123'', sender = ''ou_USER_456'',
             sender_name = ''ou_USER_456'', msg_content = ''@Jonesy @Jonesy0 hi @_user_1'',
             timestamp = 1704067200000, is_from_me = False, is_bot_message = False \<rparr>],
        test_channel\<lparr> seenMessages := [(''om_test_msg_001'', 1704067201000)] \<rparr>)"
  by code_simp

text \<open>
  Where the normalisation leaves the text alone, and its results on the inputs of the
  tests of \<^verbatim>\<open>@mention translation\<close>.
\<close>

lemma normalizeContent_self: "normalizeContent cfg botId True ms textContent = textContent"
  by (simp add: normalizeContent_def)

lemma replaceMentions_other:
  "\<forall>m \<in> set l. mention_open_id m \<noteq> Some b \<Longrightarrow> replaceMentions assistant b l t = t"
  by (induction l arbitrary: t) auto

lemma normalizeContent_other:
  "\<forall>m \<in> set l. mention_open_id m \<noteq> botId \<Longrightarrow>
   normalizeContent cfg botId isBotMessage (Some l) textContent = textContent"
  by (cases botId) (auto simp: normalizeContent_def replaceMentions_other)

lemma mention_translation_tests:
  "normalizeContent test_config (Some ''ou_BOT_123'') False
     (Some [\<lparr> key = ''@_user_1'', mention_open_id = Some ''ou_BOT_123'' \<rparr>])
     ''Hey @_user_1 what do you think?'' = ''@Jonesy Hey @Jonesy what do you think?''"
  "normalizeContent test_config (Some ''ou_BOT_123'') False
     (Some [\<lparr> key = ''@_user_1'', mention_open_id = Some ''ou_BOT_123'' \<rparr>])
     ''@_user_1 hello'' = ''@Jonesy hello''"
  "normalizeContent test_config (Some ''ou_BOT_123'') False
     (Some [\<lparr> key = ''@_user_1'', mention_open_id = Some ''ou_OTHER_USER'' \<rparr>])
     ''@_user_1 look at this'' = ''@_user_1 look at this''"
  by code_simp+

subsection \<open>Facts about outbound delivery\<close>

text \<open>
  The splitter returns at the limit of the channel, with at least one chunk. The calls
  \<^verbatim>\<open>_sendDirect\<close> makes are an initial segment of \<open>directCalls\<close>, and all of them
  when no call is rejected.
\<close>

lemma splitMarkdown_MAX:
  "\<exists>chunks. splitMarkdown t MAX_TEXT_LENGTH = Some chunks \<and> chunks \<noteq> [] \<and>
            (\<forall>c \<in> set chunks. length c \<le> MAX_TEXT_LENGTH)"
proof -
  have L: "1 \<le> MAX_TEXT_LENGTH" by (simp add: MAX_TEXT_LENGTH_def)
  from splitMarkdown_trace[OF L, of t] obtain tr where
    tr: "splitMarkdown t MAX_TEXT_LENGTH = Some (map fst tr)" "rejoin tr = t"
        "list_all (cutOk MAX_TEXT_LENGTH) tr" "length t \<le> MAX_TEXT_LENGTH \<longrightarrow> tr = [(t, NoCut)]"
    by blast
  have "tr \<noteq> []"
  proof (cases "length t \<le> MAX_TEXT_LENGTH")
    case True
    with tr(4) show ?thesis by simp
  next
    case False
    then have "t \<noteq> []" by auto
    with tr(2) show ?thesis by (auto simp: rejoin_Nil)
  qed
  moreover have "\<forall>c \<in> set (map fst tr). length c \<le> MAX_TEXT_LENGTH"
    using tr(3) cutOk_bound by (auto simp: list_all_iff)
  ultimately show ?thesis using tr(1) by auto
qed

lemma sendChunks_calls:
  "\<exists>sent rest. snd (sendChunks pf chatId replyTo mu i chunks calls) = calls @ sent \<and>
      sent @ rest = directCalls chatId replyTo mu i chunks \<and>
      (fst (sendChunks pf chatId replyTo mu i chunks calls) = Inr () \<longrightarrow> rest = [])"
proof (induction chunks arbitrary: i calls)
  case Nil
  then show ?case by simp
next
  case (Cons chunk chunks)
  define c where "c = hd (directCalls chatId replyTo mu i (chunk # chunks))"
  have dc: "directCalls chatId replyTo mu i (chunk # chunks)
              = c # directCalls chatId replyTo mu (Suc i) chunks"
    by (simp add: Let_def c_def)
  show ?case
  proof (cases "pf calls c")
    case True
    then have step: "sendChunks pf chatId replyTo mu i (chunk # chunks) calls
        = sendChunks pf chatId replyTo mu (Suc i) chunks (calls @ [c])"
      by (simp add: Let_def invoke_def c_def)
    from Cons.IH[of "Suc i" "calls @ [c]"] obtain sent rest where
      "snd (sendChunks pf chatId replyTo mu (Suc i) chunks (calls @ [c])) = (calls @ [c]) @ sent"
      "sent @ rest = directCalls chatId replyTo mu (Suc i) chunks"
      "fst (sendChunks pf chatId replyTo mu (Suc i) chunks (calls @ [c])) = Inr () \<longrightarrow> rest = []"
      by blast
    then show ?thesis
      unfolding step dc by (intro exI[of _ "c # sent"] exI[of _ rest]) simp
  next
    case False
    then have step: "sendChunks pf chatId replyTo mu i (chunk # chunks) calls
        = (Inl PlatformError, calls @ [c])"
      by (simp add: Let_def invoke_def c_def)
    show ?thesis
      unfolding step dc
      by (intro exI[of _ "[c]"] exI[of _ "directCalls chatId replyTo mu (Suc i) chunks"]) simp
  qed
qed

lemma sendChunks_accepting:
  "(\<forall>l c. pf l c) \<Longrightarrow>
   sendChunks pf chatId replyTo mu i chunks calls
     = (Inr (), calls @ directCalls chatId replyTo mu i chunks)"
  by (induction chunks arbitrary: i calls) (simp_all add: Let_def invoke_def)



lemma directCalls_plain:
  "map callText (directCalls chatId replyTo None i chunks) = chunks"
  by (induction chunks arbitrary: i) (simp_all add: Let_def)

lemma sendDirect_calls:
  "\<exists>chunks res sent rest.
      splitMarkdown t MAX_TEXT_LENGTH = Some chunks \<and> chunks \<noteq> [] \<and>
      (\<forall>c \<in> set chunks. length c \<le> MAX_TEXT_LENGTH) \<and>
      sendDirect pf jid t replyTo mu calls = Some (res, calls @ sent) \<and>
      sent @ rest = directCalls (chatIdOf jid) replyTo mu 0 chunks \<and>
      (res = Inr () \<longrightarrow> rest = [])"
proof -
  from splitMarkdown_MAX[of t] obtain chunks where
    ch: "splitMarkdown t MAX_TEXT_LENGTH = Some chunks" "chunks \<noteq> []"
        "\<forall>c \<in> set chunks. length c \<le> MAX_TEXT_LENGTH"
    by blast
  let ?r = "sendChunks pf (chatIdOf jid) replyTo mu 0 chunks calls"
  from sendChunks_calls[of pf "chatIdOf jid" replyTo mu 0 chunks calls] obtain sent rest where
    sr: "snd ?r = calls @ sent" "sent @ rest = directCalls (chatIdOf jid) replyTo mu 0 chunks"
        "fst ?r = Inr () \<longrightarrow> rest = []"
    by blast
  have "sendDirect pf jid t replyTo mu calls = Some (fst ?r, calls @ sent)"
    using ch(1) sr(1) by (simp add: sendDirect_def) (metis prod.collapse)
  with ch sr show ?thesis by blast
qed

lemma sendDirect_accepting:
  assumes "\<forall>l c. pf l c" and "splitMarkdown t MAX_TEXT_LENGTH = Some chunks"
  shows "sendDirect pf jid t replyTo mu calls
           = Some (Inr (), calls @ directCalls (chatIdOf jid) replyTo mu 0 chunks)"
  using assms by (simp add: sendDirect_def sendChunks_accepting)




subsection \<open>Claims about outbound delivery\<close>









text \<open>
  The flush loop sends the items in queue order, one after the other; the first rejected
  call ends it.
\<close>

lemma flushLoop_calls:
  "\<exists>res rest_queue sent rest sent_items.
      flushLoop pf queue calls = Some (res, rest_queue, calls @ sent) \<and>
      sent @ rest = concat (map queuedCalls queue) \<and>
      queue = sent_items @ rest_queue \<and>
      (res = Inr () \<longrightarrow> rest = [] \<and> rest_queue = []) \<and>
      ((\<forall>l c. pf l c) \<longrightarrow> res = Inr ())"
proof (induction queue arbitrary: calls)
  case Nil
  then show ?case by simp
next
  case (Cons item queue)
  obtain jid t where item: "item = (jid, t)" by (cases item)
  from sendDirect_calls[of t pf jid None None calls] obtain chunks res sent rest where
    d: "splitMarkdown t MAX_TEXT_LENGTH = Some chunks"
       "sendDirect pf jid t None None calls = Some (res, calls @ sent)"
       "sent @ rest = directCalls (chatIdOf jid) None None 0 chunks"
       "res = Inr () \<longrightarrow> rest = []"
    by blast
  have qc: "queuedCalls item = sent @ rest"
    using d(1,3) item by (simp add: queuedCalls_def)
  show ?case
  proof (cases res)
    case (Inl e)
    have ne: "\<not> (\<forall>l c. pf l c)"
    proof
      assume acc: "\<forall>l c. pf l c"
      from sendDirect_accepting[OF acc d(1), of jid None None calls] d(2) Inl show False by simp
    qed
    have "flushLoop pf (item # queue) calls = Some (Inl e, queue, calls @ sent)"
      using d(2) Inl item by simp
    moreover have "sent @ (rest @ concat (map queuedCalls queue)) = concat (map queuedCalls (item # queue))"
      using qc by simp
    moreover have "item # queue = [item] @ queue" by simp
    ultimately show ?thesis using ne by blast
  next
    case (Inr u)
    with d(4) have rest: "rest = []" by simp
    from Cons.IH[of "calls @ sent"] obtain res' rq sent' rest' items' where
      ih: "flushLoop pf queue (calls @ sent) = Some (res', rq, (calls @ sent) @ sent')"
          "sent' @ rest' = concat (map queuedCalls queue)"
          "queue = items' @ rq"
          "res' = Inr () \<longrightarrow> rest' = [] \<and> rq = []"
          "(\<forall>l c. pf l c) \<longrightarrow> res' = Inr ()"
      by blast
    have "flushLoop pf (item # queue) calls = Some (res', rq, calls @ (sent @ sent'))"
      using d(2) Inr item ih(1) by simp
    moreover have "(sent @ sent') @ rest' = concat (map queuedCalls (item # queue))"
      using qc rest ih(2) by simp
    moreover have "item # queue = (item # items') @ rq" using ih(3) by simp
    ultimately show ?thesis using ih(4,5) by blast
  qed
qed

text \<open>
  What holds of the queue whatever the platform does: \<^verbatim>\<open>sendMessage\<close> on a disconnected
  channel makes no send call, appends the pair of jid and text to the queue and
  resolves; on \<^verbatim>\<open>connect()\<close>, once the server listens and no flush is running, the
  calls made are an initial segment of the calls of the queued items in their original
  order and the items left are a final segment of the queue. When no call is rejected
  all queued items are sent in their original order and the queue ends empty.
\<close>

lemma flush_fifo_prefix:
  "(\<not> connected s \<longrightarrow>
      sendMessage pf jid t opts s calls
        = Some (Inr (), s\<lparr> outgoingQueue := outgoingQueue s @ [(jid, t)] \<rparr>, calls)) \<and>
   (\<not> flushing s \<longrightarrow>
      (\<exists>res s' sent rest sent_items.
          connect pf True botInfo s calls = Some (res, s', calls @ sent) \<and>
          connected s' \<and> \<not> flushing s' \<and>
          sent @ rest = concat (map queuedCalls (outgoingQueue s)) \<and>
          outgoingQueue s = sent_items @ outgoingQueue s' \<and>
          (res = Inr () \<longrightarrow> rest = [] \<and> outgoingQueue s' = []) \<and>
          ((\<forall>l c. pf l c) \<longrightarrow> res = Inr ())))"
proof (intro conjI impI)
  assume "\<not> connected s"
  then show "sendMessage pf jid t opts s calls
        = Some (Inr (), s\<lparr> outgoingQueue := outgoingQueue s @ [(jid, t)] \<rparr>, calls)"
    by (simp add: sendMessage_def)
next
  assume nf: "\<not> flushing s"
  define s1 where "s1 = (case botInfo of None \<Rightarrow> s | Some openId \<Rightarrow> s\<lparr> botOpenId := openId \<rparr>)
                          \<lparr> connected := True \<rparr>"
  have s1: "connected s1" "\<not> flushing s1" "outgoingQueue s1 = outgoingQueue s"
    using nf by (simp_all add: s1_def split: option.splits)
  have con: "connect pf True botInfo s calls = flushOutgoingQueue pf s1 calls"
    by (simp add: connect_def s1_def Let_def)
  show "\<exists>res s' sent rest sent_items.
          connect pf True botInfo s calls = Some (res, s', calls @ sent) \<and>
          connected s' \<and> \<not> flushing s' \<and>
          sent @ rest = concat (map queuedCalls (outgoingQueue s)) \<and>
          outgoingQueue s = sent_items @ outgoingQueue s' \<and>
          (res = Inr () \<longrightarrow> rest = [] \<and> outgoingQueue s' = []) \<and>
          ((\<forall>l c. pf l c) \<longrightarrow> res = Inr ())"
  proof (cases "outgoingQueue s = []")
    case True
    then have "flushOutgoingQueue pf s1 calls = Some (Inr (), s1, calls @ [])"
      using s1 by (simp add: flushOutgoingQueue_def)
    with con True s1 show ?thesis
      by (intro exI[of _ "Inr ()"] exI[of _ s1] exI[of _ "[]"]) simp
  next
    case False
    from flushLoop_calls[of pf "outgoingQueue s" calls] obtain res rq sent rest items where
      f: "flushLoop pf (outgoingQueue s) calls = Some (res, rq, calls @ sent)"
         "sent @ rest = concat (map queuedCalls (outgoingQueue s))"
         "outgoingQueue s = items @ rq"
         "res = Inr () \<longrightarrow> rest = [] \<and> rq = []"
         "(\<forall>l c. pf l c) \<longrightarrow> res = Inr ()"
      by blast
    let ?s' = "s1\<lparr> outgoingQueue := rq, flushing := False \<rparr>"
    have "flushOutgoingQueue pf s1 calls = Some (res, ?s', calls @ sent)"
      using False s1 f(1) by (simp add: flushOutgoingQueue_def)
    with con have c: "connect pf True botInfo s calls = Some (res, ?s', calls @ sent)" by simp
    have p: "connected ?s'" "\<not> flushing ?s'" "outgoingQueue ?s' = rq" using s1 by simp_all
    show ?thesis
      using c p f(2,3,4,5)
      by (intro exI[of _ res] exI[of _ ?s'] exI[of _ sent] exI[of _ rest] exI[of _ items]) simp
  qed
qed

text \<open>
  The test \<^verbatim>\<open>flushes queued messages on connect\<close>: two messages sent while
  disconnected, then \<^verbatim>\<open>connect()\<close> on a platform that accepts every call.
\<close>

lemma flush_fifo_prefix_example:
  "\<not> connected (newChannel\<lparr> outgoingQueue := [(''lark:oc_test123'', ''First queued'')] \<rparr>) \<and>
   sendMessage acceptAll ''lark:oc_test123'' ''Second queued'' noOpts
       (newChannel\<lparr> outgoingQueue := [(''lark:oc_test123'', ''First queued'')] \<rparr>) []
     = Some (Inr (), queued_channel, []) \<and>
   \<not> flushing queued_channel \<and>
   (\<exists>s'. connect acceptAll True (Some (Some ''ou_BOT_123'')) queued_channel []
            = Some (Inr (), s', concat (map queuedCalls (outgoingQueue queued_channel))) \<and>
         outgoingQueue s' = []) \<and>
   connect acceptAll True (Some (Some ''ou_BOT_123'')) queued_channel []
     = Some (Inr (), test_channel,
             [MessageCreate ''oc_test123'' ''First queued'' PostMsg,
              MessageCreate ''oc_test123'' ''Second queued'' PostMsg])"
proof -
  let ?q1 = "newChannel\<lparr> outgoingQueue := [(''lark:oc_test123'', ''First queued'')] \<rparr>"
  have nc: "\<not> connected ?q1" by code_simp
  have nf: "\<not> flushing queued_channel" by code_simp
  have acc: "\<forall>l c. acceptAll l c" by (simp add: acceptAll_def)
  have q: "?q1\<lparr> outgoingQueue := outgoingQueue ?q1 @ [(''lark:oc_test123'', ''Second queued'')] \<rparr>
             = queued_channel" by code_simp
  have ev: "connect acceptAll True (Some (Some ''ou_BOT_123'')) queued_channel []
     = Some (Inr (), test_channel,
             [MessageCreate ''oc_test123'' ''First queued'' PostMsg,
              MessageCreate ''oc_test123'' ''Second queued'' PostMsg])" by code_simp
  from flush_fifo_prefix[of ?q1 acceptAll "''lark:oc_test123''" "''Second queued''" noOpts "[]"
        "Some (Some ''ou_BOT_123'')"] nc q
  have queued: "sendMessage acceptAll ''lark:oc_test123'' ''Second queued'' noOpts ?q1 []
     = Some (Inr (), queued_channel, [])" by simp
  from flush_fifo_prefix[of queued_channel acceptAll "[]" "[]" noOpts "[]"
        "Some (Some ''ou_BOT_123'')"] nf
  obtain res s' sent rest where
    f: "connect acceptAll True (Some (Some ''ou_BOT_123'')) queued_channel [] = Some (res, s', [] @ sent)"
       "sent @ rest = concat (map queuedCalls (outgoingQueue queued_channel))"
       "res = Inr () \<longrightarrow> rest = [] \<and> outgoingQueue s' = []"
       "(\<forall>l c. acceptAll l c) \<longrightarrow> res = Inr ()"
    by blast
  from f(4) acc have r: "res = Inr ()" by blast
  with f(3) have "rest = []" "outgoingQueue s' = []" by simp_all
  with f(1,2) r have flushed: "\<exists>s'. connect acceptAll True (Some (Some ''ou_BOT_123'')) queued_channel []
            = Some (Inr (), s', concat (map queuedCalls (outgoingQueue queued_channel))) \<and>
         outgoingQueue s' = []"
    by (intro exI[of _ s']) simp
  from nc queued nf flushed ev show ?thesis by (intro conjI)
qed

text \<open>
  Claim C7. The claim holds when the platform accepts every call of the flush (lemma
  \<open>flush_fifo_prefix\<close>). It fails when a call is rejected during the flush: the item
  has been taken off the queue before it is sent, and \<^verbatim>\<open>flushOutgoingQueue\<close> has no
  error path, so the item is lost, the items behind it stay unsent and \<^verbatim>\<open>connect()\<close>
  is rejected on a channel that is already connected. Here two items are queued and the
  first call is rejected. \<^verbatim>\<open>sendMessage\<close> absorbs the same failure and puts the item
  back on the queue, as the second equation shows.
\<close>

theorem flush_loses_item_on_rejected_send:
  "connect (rejectFirst 1) True (Some (Some ''ou_BOT_123'')) queued_channel []
     = Some (Inl PlatformError,
             newChannel\<lparr> botOpenId := Some ''ou_BOT_123'', connected := True,
                           outgoingQueue := [(''lark:oc_test123'', ''Second queued'')] \<rparr>,
             [MessageCreate ''oc_test123'' ''First queued'' PostMsg]) \<and>
   sendMessage (rejectFirst 2) ''lark:oc_test123'' ''First queued'' noOpts test_channel []
     = Some (Inr (),
             test_channel\<lparr> outgoingQueue := [(''lark:oc_test123'', ''First queued'')] \<rparr>,
             [MessageCreate ''oc_test123'' ''First queued'' PostMsg,
              MessageCreate ''oc_test123'' ''First queued'' TextMsg])"
  by code_simp




text \<open>
  The dedup store belongs to the inbound side: sending and connecting leave it as it is.
\<close>

lemma sendMessage_keeps_seen:
  "sendMessage pf jid t opts s calls = Some (r, s1, calls1) \<Longrightarrow> seenMessages s1 = seenMessages s"
  by (auto simp: sendMessage_def Let_def invoke_def split: if_splits option.splits sum.splits prod.splits)

lemma connect_keeps_seen:
  "connect pf listening botInfo s calls = Some (r, s1, calls1) \<Longrightarrow> seenMessages s1 = seenMessages s"
  by (auto simp: connect_def flushOutgoingQueue_def Let_def split: if_splits option.splits prod.splits)

end
